theory Spec2Isabelle
  imports Complex_Main
begin

section \<open>Exceptions and outcomes\<close>

text \<open>
  The module \<^verbatim>\<open>gwmemory/utils.py\<close> is embedded with Python integers as \<open>int\<close> and numpy
  arrays as lists. The window \<^verbatim>\<open>planck\<close> and the mass conversions compute in IEEE doubles
  (type \<open>fval\<close> below); \<^verbatim>\<open>nfft\<close> and the waveform loader read their samples as real numbers.
  A computation that can raise returns \<open>py_error + 'a\<close>, with \<open>Inl\<close> the exception.
  \<open>EnvironmentError\<close> stands for the class the source names in its \<^verbatim>\<open>except\<close> clause
  (\<^verbatim>\<open>OSError\<close>, \<^verbatim>\<open>IOError\<close> and their subclasses); \<open>UnicodeDecodeError\<close> is an exception of a
  file read that is outside that class. \<open>NotReal\<close> is not a Python exception: it marks a
  computation whose value leaves the model's numbers (the complex result of a negative base
  raised to a fractional power, the \<^verbatim>\<open>inf\<close> or \<^verbatim>\<open>nan\<close> of a spectrum divided by zero), where
  the embedding stops.
\<close>

datatype py_error =
    TypeError
  | ValueError
  | KeyError
  | IndexError
  | UnboundLocalError
  | ZeroDivisionError
  | OverflowError
  | EnvironmentError
  | UnicodeDecodeError
  | NotReal

text \<open>Sequencing: the first exception ends the computation.\<close>

definition then_py :: "py_error + 'a \<Rightarrow> ('a \<Rightarrow> py_error + 'b) \<Rightarrow> py_error + 'b" where
  "then_py r f = (case r of Inl err \<Rightarrow> Inl err | Inr v \<Rightarrow> f v)"

section \<open>IEEE doubles\<close>

text \<open>
  A double is a finite real, an infinity or a NaN; the sign of zero is not kept.
  \<open>flr x\<close> is \<open>x\<close> rounded to the nearest number with a 53-bit significand and an exponent
  of at least \<open>-1022\<close> (the quantum is \<open>2 powi (fexp x - 52)\<close>, subnormal below
  \<open>2 powi (- 1022)\<close>), ties going to the even significand; \<open>fl x\<close> is the double that
  IEEE 754 round-to-nearest gives for the exact value \<open>x\<close>, an infinity once the rounded
  magnitude reaches \<open>2 ^ 1024\<close>.
\<close>

datatype fval = Fin real | PInf | NInf | NaN

definition round_even :: "real \<Rightarrow> int" where
  "round_even x =
     (let f = \<lfloor>x\<rfloor>; d = x - real_of_int f
      in if d < 1 / 2 then f
         else if 1 / 2 < d then f + 1
         else if even f then f else f + 1)"

definition fexp :: "real \<Rightarrow> int" where
  "fexp x = max \<lfloor>log 2 \<bar>x\<bar>\<rfloor> (- 1022)"

definition flr :: "real \<Rightarrow> real" where
  "flr x =
     (if x = 0 then 0
      else real_of_int (round_even (x / 2 powi (fexp x - 52))) * 2 powi (fexp x - 52))"

definition fl :: "real \<Rightarrow> fval" where
  "fl x =
     (let r = flr x
      in if 2 ^ 1024 \<le> r then PInf else if r \<le> - (2 ^ 1024) then NInf else Fin r)"

text \<open>The comparison \<^verbatim>\<open><=\<close> of doubles: false whenever a NaN is involved.\<close>

fun fle :: "fval \<Rightarrow> fval \<Rightarrow> bool" where
  "fle (Fin a) (Fin b) = (a \<le> b)"
| "fle (Fin a) PInf = True"
| "fle (Fin a) NInf = False"
| "fle PInf PInf = True"
| "fle PInf (Fin b) = False"
| "fle PInf NInf = False"
| "fle NInf (Fin b) = True"
| "fle NInf PInf = True"
| "fle NInf NInf = True"
| "fle NaN y = False"
| "fle x NaN = False"



fun signed_inf :: "bool \<Rightarrow> fval" where
  "signed_inf True = PInf"
| "signed_inf False = NInf"

text \<open>
  The arithmetic of doubles, without traps. The rounding \<open>rnd\<close> of finite results is a
  parameter: \<open>fl\<close> gives IEEE arithmetic, \<open>Fin\<close> gives exact arithmetic over the reals.
\<close>

fun fadd :: "(real \<Rightarrow> fval) \<Rightarrow> fval \<Rightarrow> fval \<Rightarrow> fval" where
  "fadd rnd (Fin a) (Fin b) = rnd (a + b)"
| "fadd rnd (Fin a) PInf = PInf"
| "fadd rnd (Fin a) NInf = NInf"
| "fadd rnd PInf (Fin b) = PInf"
| "fadd rnd NInf (Fin b) = NInf"
| "fadd rnd PInf PInf = PInf"
| "fadd rnd NInf NInf = NInf"
| "fadd rnd PInf NInf = NaN"
| "fadd rnd NInf PInf = NaN"
| "fadd rnd NaN y = NaN"
| "fadd rnd x NaN = NaN"


fun fmul :: "(real \<Rightarrow> fval) \<Rightarrow> fval \<Rightarrow> fval \<Rightarrow> fval" where
  "fmul rnd (Fin a) (Fin b) = rnd (a * b)"
| "fmul rnd (Fin a) PInf = (if a = 0 then NaN else signed_inf (0 < a))"
| "fmul rnd (Fin a) NInf = (if a = 0 then NaN else signed_inf (a < 0))"
| "fmul rnd PInf (Fin b) = (if b = 0 then NaN else signed_inf (0 < b))"
| "fmul rnd NInf (Fin b) = (if b = 0 then NaN else signed_inf (b < 0))"
| "fmul rnd PInf PInf = PInf"
| "fmul rnd NInf NInf = PInf"
| "fmul rnd PInf NInf = NInf"
| "fmul rnd NInf PInf = NInf"
| "fmul rnd NaN y = NaN"
| "fmul rnd x NaN = NaN"

fun fdiv :: "(real \<Rightarrow> fval) \<Rightarrow> fval \<Rightarrow> fval \<Rightarrow> fval" where
  "fdiv rnd (Fin a) (Fin b) =
     (if b = 0 then (if a = 0 then NaN else signed_inf (0 < a)) else rnd (a / b))"
| "fdiv rnd (Fin a) PInf = Fin 0"
| "fdiv rnd (Fin a) NInf = Fin 0"
| "fdiv rnd PInf (Fin b) = signed_inf (0 \<le> b)"
| "fdiv rnd NInf (Fin b) = signed_inf (b < 0)"
| "fdiv rnd PInf PInf = NaN"
| "fdiv rnd NInf NInf = NaN"
| "fdiv rnd PInf NInf = NaN"
| "fdiv rnd NInf PInf = NaN"
| "fdiv rnd NaN y = NaN"
| "fdiv rnd x NaN = NaN"

section \<open>Python and numpy primitives\<close>

text \<open>
  The conversion of a Python integer to a float, which raises \<^verbatim>\<open>OverflowError\<close> when the
  integer is too large for a double, and the product \<^verbatim>\<open>x * i\<close> of a float and an integer.
\<close>

definition py_float_of_int :: "int \<Rightarrow> py_error + fval" where
  "py_float_of_int i =
     (case fl (real_of_int i) of Fin r \<Rightarrow> Inr (Fin r) | _ \<Rightarrow> Inl OverflowError)"

definition py_float_mul_int :: "fval \<Rightarrow> int \<Rightarrow> py_error + fval" where
  "py_float_mul_int x i = then_py (py_float_of_int i) (\<lambda>y. Inr (fmul fl x y))"





text \<open>
  \<^verbatim>\<open>np.floor\<close> of a double, and \<^verbatim>\<open>int(x)\<close> of a double, which raises \<^verbatim>\<open>OverflowError\<close> for an
  infinity and \<^verbatim>\<open>ValueError\<close> for a NaN. The conversion of a 64-bit integer to a double.
\<close>

fun np_floor :: "fval \<Rightarrow> fval" where
  "np_floor (Fin r) = Fin (real_of_int \<lfloor>r\<rfloor>)"
| "np_floor PInf = PInf"
| "np_floor NInf = NInf"
| "np_floor NaN = NaN"

fun py_int_of_float :: "fval \<Rightarrow> py_error + int" where
  "py_int_of_float (Fin r) = Inr (if 0 \<le> r then \<lfloor>r\<rfloor> else \<lceil>r\<rceil>)"
| "py_int_of_float PInf = Inl OverflowError"
| "py_int_of_float NInf = Inl OverflowError"
| "py_int_of_float NaN = Inl ValueError"

definition f64_of_int :: "int \<Rightarrow> fval" where
  "f64_of_int i = fl (real_of_int i)"

text \<open>
  \<^verbatim>\<open>np.exp\<close> of a double: the library's exponential \<open>lib_exp\<close> on finite arguments is a
  parameter, since numpy does not promise a correctly rounded result.
\<close>

fun np_exp :: "(real \<Rightarrow> fval) \<Rightarrow> fval \<Rightarrow> fval" where
  "np_exp lib_exp (Fin r) = lib_exp r"
| "np_exp lib_exp PInf = PInf"
| "np_exp lib_exp NInf = Fin 0"
| "np_exp lib_exp NaN = NaN"

text \<open>
  \<^verbatim>\<open>range(a, b)\<close> on integers: \<open>a, a + 1, ..., b - 1\<close>. \<^verbatim>\<open>np.arange(a, b)\<close> is the same list,
  but numpy computes its length as a 64-bit index and raises \<^verbatim>\<open>OverflowError\<close> when \<open>b - a\<close>
  is outside that range.
\<close>

definition py_range :: "int \<Rightarrow> int \<Rightarrow> int list" where
  "py_range a b = [a..b - 1]"

definition arange :: "int \<Rightarrow> int \<Rightarrow> py_error + int list" where
  "arange a b =
     (if - (2 ^ 63) \<le> b - a \<and> b - a < 2 ^ 63 then Inr [a..b - 1] else Inl OverflowError)"

text \<open>\<^verbatim>\<open>np.ones(n)\<close>: a negative length raises \<^verbatim>\<open>ValueError\<close>.\<close>

definition np_ones :: "int \<Rightarrow> py_error + fval list" where
  "np_ones n = (if n < 0 then Inl ValueError else Inr (replicate (nat n) (Fin 1)))"

text \<open>
  \<^verbatim>\<open>np.linspace(start, stop, num)\<close>: \<open>num\<close> points with step \<open>(stop - start) / (num - 1)\<close>,
  the single point \<open>start\<close> when \<open>num = 1\<close>.
\<close>

definition np_linspace :: "real \<Rightarrow> real \<Rightarrow> int \<Rightarrow> py_error + real list" where
  "np_linspace start stop num =
     (if num < 0 then Inl ValueError
      else if num = 1 then Inr [start]
      else Inr (map (\<lambda>i. start + real i * ((stop - start) / real_of_int (num - 1)))
                  [0..<nat num]))"

text \<open>
  \<^verbatim>\<open>np.fft.rfft(x)\<close>, the library's real-input transform: for \<open>n\<close> samples the \<open>n div 2 + 1\<close>
  values \<open>\<Sum>j<n. x\<^sub>j * exp (- 2 * pi * \<i> * k * j / n)\<close>; numpy raises \<^verbatim>\<open>ValueError\<close> for an
  empty input.
\<close>

definition rfft :: "real list \<Rightarrow> py_error + complex list" where
  "rfft x =
     (let n = length x in
      if n < 1 then Inl ValueError
      else Inr (map (\<lambda>k. \<Sum>j<n. complex_of_real (x ! j) *
                             cis (- 2 * pi * real k * real j / real n))
                  [0..<n div 2 + 1]))"

section \<open>Mass conversions\<close>





section \<open>The single-sided spectrum\<close>

text \<open>
  \<^verbatim>\<open>nfft(ht, sampling_frequency)\<close>, lines 92 to 105, in the order of the source: the padding,
  the frequency grid, the transform, the normalisation. Samples and frequencies are real
  numbers here. \<^verbatim>\<open>int(LL / 2 + 1)\<close> is the floor of a non-negative float. Dividing the
  spectrum by a zero sampling frequency gives numpy's \<^verbatim>\<open>inf\<close> and \<^verbatim>\<open>nan\<close>, which is \<open>NotReal\<close>
  here.
\<close>

definition nfft :: "real list \<Rightarrow> real \<Rightarrow> py_error + complex list \<times> real list" where
  "nfft ht sampling_frequency =
     (let ht1 = (if length ht mod 2 = 1 then ht @ [0] else ht);
          LL = length ht1
      in then_py (np_linspace 0 1 \<lfloor>real LL / 2 + 1\<rfloor>) (\<lambda>lin.
         let ff = map (\<lambda>x. sampling_frequency / 2 * x) lin
         in then_py (rfft ht1) (\<lambda>hf.
            if sampling_frequency = 0 then Inl NotReal
            else Inr (map (\<lambda>z. z / complex_of_real sampling_frequency) hf, ff))))"

section \<open>Loading the modes of a waveform\<close>

text \<open>
  \<^verbatim>\<open>"Y_l{}_m{}.dat".format(ell, mm)\<close>: the decimal text of both integers in the template.
\<close>

definition digit_char :: "nat \<Rightarrow> char" where
  "digit_char d = ''0123456789'' ! d"

fun str_nat :: "nat \<Rightarrow> string" where
  "str_nat n = (if n < 10 then [digit_char n] else str_nat (n div 10) @ [digit_char (n mod 10)])"

definition str_int :: "int \<Rightarrow> string" where
  "str_int i = (if i < 0 then CHR ''-'' # str_nat (nat (- i)) else str_nat (nat i))"

definition dataset_name :: "int \<Rightarrow> int \<Rightarrow> string" where
  "dataset_name ell mm = ''Y_l'' @ str_int ell @ ''_m'' @ str_int mm @ ''.dat''"

text \<open>
  Subscripting a Python \<^verbatim>\<open>str\<close>: an integer selects a character, a slice a substring, and
  any tuple of indices raises \<^verbatim>\<open>TypeError\<close> (string indices must be integers).
\<close>

datatype py_index = Index int | Slice "int option" "int option" | Tuple "py_index list"

definition slice_bound :: "nat \<Rightarrow> int \<Rightarrow> int option \<Rightarrow> nat" where
  "slice_bound n dflt b =
     (case b of
        None \<Rightarrow> nat dflt
      | Some i \<Rightarrow> if i < 0 then nat (max 0 (int n + i)) else nat (min (int n) i))"

definition str_getitem :: "string \<Rightarrow> py_index \<Rightarrow> py_error + string" where
  "str_getitem s idx =
     (case idx of
        Index i \<Rightarrow>
          if - int (length s) \<le> i \<and> i < int (length s)
          then Inr [s ! nat (i mod int (length s))]
          else Inl IndexError
      | Slice a b \<Rightarrow>
          let lo = slice_bound (length s) 0 a; hi = slice_bound (length s) (int (length s)) b
          in Inr (take (hi - lo) (drop lo s))
      | Tuple _ \<Rightarrow> Inl TypeError)"

text \<open>
  A dataset is a two-dimensional table, held as the list of its columns (time, real part,
  imaginary part), so that \<^verbatim>\<open>mode_array[:, j]\<close> is column \<open>j\<close> and raises \<^verbatim>\<open>IndexError\<close> when
  the table has no such column. The archive maps an extraction label to a group, and a group
  maps a dataset name to its table; a missing key raises \<^verbatim>\<open>KeyError\<close>.
\<close>

type_synonym dataset = "real list list"

type_synonym archive = "string \<rightharpoonup> (string \<rightharpoonup> dataset)"

definition getitem :: "('k \<rightharpoonup> 'v) \<Rightarrow> 'k \<Rightarrow> py_error + 'v" where
  "getitem d k = (case d k of None \<Rightarrow> Inl KeyError | Some v \<Rightarrow> Inr v)"

definition column :: "dataset \<Rightarrow> nat \<Rightarrow> py_error + real list" where
  "column a j = (if j < length a then Inr (a ! j) else Inl IndexError)"

text \<open>\<^verbatim>\<open>mode_array[:, 1] + 1j * mode_array[:, 2]\<close>.\<close>

definition complex_series :: "dataset \<Rightarrow> py_error + complex list" where
  "complex_series mode_array =
     then_py (column mode_array 1) (\<lambda>re_part.
     then_py (column mode_array 2) (\<lambda>im_part.
     Inr (map2 Complex re_part im_part)))"

text \<open>
  The state of both loops: the dictionary \<^verbatim>\<open>output\<close> and the local \<^verbatim>\<open>mode_array\<close>, which is
  unbound (\<open>None\<close>) until a loop body has assigned it.
\<close>

type_synonym load_state = "((int \<times> int) \<rightharpoonup> complex list) \<times> dataset option"

text \<open>The pairs of the nested loops of lines 130 and 131, in order.\<close>

definition default_modes :: "(int \<times> int) list" where
  "default_modes =
     concat (map (\<lambda>ell. map (\<lambda>mm. (ell, mm)) (py_range (- ell) (ell + 1))) (py_range 2 5))"

text \<open>
  The body of the default loop, lines 132 to 135. Python evaluates \<^verbatim>\<open>waveform[extraction]\<close>
  first, then the subscript expression, in which \<^verbatim>\<open>[:, 1:]\<close> is applied to the formatted
  string, and only then looks the key up.
\<close>

definition default_body ::
  "archive \<Rightarrow> string \<Rightarrow> int \<times> int \<Rightarrow> load_state \<Rightarrow> py_error + load_state" where
  "default_body waveform extraction mode st =
     then_py (getitem waveform extraction) (\<lambda>grp.
     then_py (str_getitem (dataset_name (fst mode) (snd mode))
                (Tuple [Slice None None, Slice (Some 1) None])) (\<lambda>key.
     then_py (getitem grp key) (\<lambda>mode_array.
     then_py (complex_series mode_array) (\<lambda>series.
     Inr ((fst st)(mode \<mapsto> series), Some mode_array)))))"

text \<open>The body of the loop over explicit modes, lines 138 and 139.\<close>

definition modes_body ::
  "archive \<Rightarrow> string \<Rightarrow> int \<times> int \<Rightarrow> load_state \<Rightarrow> py_error + load_state" where
  "modes_body waveform extraction mode st =
     then_py (getitem waveform extraction) (\<lambda>grp.
     then_py (getitem grp (dataset_name (fst mode) (snd mode))) (\<lambda>mode_array.
     then_py (complex_series mode_array) (\<lambda>series.
     Inr ((fst st)(mode \<mapsto> series), Some mode_array))))"

fun for_each :: "('a \<Rightarrow> 's \<Rightarrow> py_error + 's) \<Rightarrow> 'a list \<Rightarrow> 's \<Rightarrow> py_error + 's" where
  "for_each body [] st = Inr st"
| "for_each body (x # xs) st = then_py (body x st) (for_each body xs)"

text \<open>
  \<^verbatim>\<open>load_sxs_waveform(file_name, modes, extraction)\<close>, lines 127 to 141. \<open>deepdish_load\<close> is
  the archive reader \<^verbatim>\<open>deepdish.io.load\<close>; \<open>modes = None\<close> is the default argument. Reading
  \<^verbatim>\<open>mode_array\<close> on line 140 while it is unbound raises \<^verbatim>\<open>UnboundLocalError\<close>.
\<close>

definition load_sxs_waveform ::
  "(string \<Rightarrow> py_error + archive) \<Rightarrow> string \<Rightarrow> (int \<times> int) list option \<Rightarrow> string \<Rightarrow>
     py_error + ((int \<times> int) \<rightharpoonup> complex list) \<times> real list" where
  "load_sxs_waveform deepdish_load file_name modes extraction =
     then_py (deepdish_load file_name) (\<lambda>waveform.
     then_py (case modes of
                None \<Rightarrow>
                  for_each (default_body waveform extraction) default_modes (Map.empty, None)
              | Some ms \<Rightarrow>
                  for_each (modes_body waveform extraction) ms (Map.empty, None)) (\<lambda>st.
     case snd st of
       None \<Rightarrow> Inl UnboundLocalError
     | Some mode_array \<Rightarrow>
         then_py (column mode_array 0) (\<lambda>times. Inr (fst st, times))))"

section \<open>A sample archive\<close>

text \<open>
  An archive that holds, under the default extraction label, a three-column table for every
  dataset name of the default modes; each table has two rows.
\<close>

definition sample_table :: dataset where
  "sample_table = [[0, 1], [1 / 2, 1 / 3], [1 / 4, 1 / 5]]"

definition sample_archive :: archive where
  "sample_archive =
     [''OutermostExtraction.dir'' \<mapsto>
        map_of (map (\<lambda>(ell, mm). (dataset_name ell mm, sample_table)) default_modes)]"

section \<open>The version stamp\<close>

text \<open>
  The text of a file is a list of Unicode code points. \<^verbatim>\<open>str.rstrip()\<close> removes trailing
  whitespace, the code points for which \<^verbatim>\<open>str.isspace\<close> holds; \<^verbatim>\<open>readline\<close> returns the first
  line of the file, or the empty string at its end. \<^verbatim>\<open>os.path.dirname\<close> and \<^verbatim>\<open>os.path.join\<close>
  are those of \<^verbatim>\<open>posixpath\<close>, on paths held as strings.
\<close>

type_synonym unicode = "nat list"

definition unicode_of :: "string \<Rightarrow> unicode" where
  "unicode_of s = map of_char s"

definition is_space :: "nat \<Rightarrow> bool" where
  "is_space c =
     (c \<in> {9, 10, 11, 12, 13, 28, 29, 30, 31, 32, 133, 160, 5760,
           8192, 8193, 8194, 8195, 8196, 8197, 8198, 8199, 8200, 8201, 8202,
           8232, 8233, 8239, 8287, 12288})"

definition rstrip :: "unicode \<Rightarrow> unicode" where
  "rstrip s = rev (dropWhile is_space (rev s))"

definition readline :: "unicode list \<Rightarrow> unicode" where
  "readline lines = (case lines of [] \<Rightarrow> [] | l # _ \<Rightarrow> l)"

definition os_path_dirname :: "string \<Rightarrow> string" where
  "os_path_dirname p =
     (let head = rev (dropWhile (\<lambda>c. c \<noteq> CHR ''/'') (rev p))
      in if head \<noteq> [] \<and> \<not> list_all (\<lambda>c. c = CHR ''/'') head
         then rev (dropWhile (\<lambda>c. c = CHR ''/'') (rev head))
         else head)"

definition os_path_join :: "string \<Rightarrow> string \<Rightarrow> string" where
  "os_path_join a b =
     (if b \<noteq> [] \<and> hd b = CHR ''/'' then b
      else if a = [] \<or> last a = CHR ''/'' then a @ b
      else a @ ''/'' @ b)"

definition no_version_message :: string where
  "no_version_message = ''No version information file '.version' found''"

text \<open>
  \<^verbatim>\<open>get_version_information()\<close>, lines 154 to 160. \<open>module_file\<close> is \<^verbatim>\<open>__file__\<close>, and
  \<open>open_file\<close> is the file system: for a path, the lines of the file or the exception that
  opening or reading it raises. The result is what was printed and the outcome; the function
  returns \<^verbatim>\<open>None\<close> when the \<^verbatim>\<open>except\<close> clause has handled the exception.
\<close>

definition get_version_information ::
  "string \<Rightarrow> (string \<Rightarrow> py_error + unicode list) \<Rightarrow>
     string list \<times> (py_error + unicode option)" where
  "get_version_information module_file open_file =
     (let version_file = os_path_join (os_path_dirname module_file) ''.version''
      in case open_file version_file of
           Inr lines \<Rightarrow> ([], Inr (Some (rstrip (readline lines))))
         | Inl err \<Rightarrow>
             if err = EnvironmentError then ([no_version_message], Inr None)
             else ([], Inl err))"

section \<open>The Planck-taper window\<close>

text \<open>
  \<^verbatim>\<open>planck(M, e, sym)\<close>, lines 214 to 232, on doubles; the flag \<^verbatim>\<open>sym\<close> is \<open>symw\<close> and the
  local \<^verbatim>\<open>odd\<close> is \<open>oddM\<close>, since both names are constants of HOL. \<open>M_int\<close> is the value of
  \<^verbatim>\<open>M\<close> after the periodic adjustment of line 220. Line 222 multiplies the float \<^verbatim>\<open>e\<close> by the
  integer \<^verbatim>\<open>M - 1\<close> in doubles, takes \<^verbatim>\<open>np.floor\<close> and converts with \<^verbatim>\<open>int\<close>, which raises for
  an infinite or NaN product. The array expression
  \<^verbatim>\<open>1 / (np.exp(t2 / w1 + t2 / (w1 - t2)) + 1)\<close> is elementwise over \<^verbatim>\<open>w1 = np.arange(1, t2)\<close>:
  the integers are converted to doubles and every operation rounds; \<open>taper lib_exp t2 k\<close> is
  its element for \<open>k\<close>.
\<close>

definition taper :: "(real \<Rightarrow> fval) \<Rightarrow> int \<Rightarrow> int \<Rightarrow> fval" where
  "taper lib_exp t2 k =
     fdiv fl (Fin 1)
       (fadd fl
          (np_exp lib_exp
             (fadd fl (fdiv fl (f64_of_int t2) (f64_of_int k))
                      (fdiv fl (f64_of_int t2) (f64_of_int (k - t2)))))
          (Fin 1))"

definition planck ::
  "(real \<Rightarrow> fval) \<Rightarrow> int \<Rightarrow> fval \<Rightarrow> bool \<Rightarrow> py_error + fval list" where
  "planck lib_exp M e symw =
     (if M < 1 then Inr []
      else if M < 3 then np_ones M
      else
        let oddM = M mod 2;
            M_int = (if \<not> symw \<and> oddM = 0 then M + 1 else M)
        in then_py (py_float_mul_int e (M_int - 1)) (\<lambda>prod.
           then_py (py_int_of_float (np_floor prod)) (\<lambda>width.
           let t2 = min (M_int div 2) width
           in then_py (arange 1 t2) (\<lambda>ks.
              let w1 = map (taper lib_exp t2) ks
              in then_py (np_ones (M_int - 2 - int (length w1) * 2)) (\<lambda>w2.
                 let w3 = rev w1;
                     w = [Fin 0] @ w1 @ w2 @ w3 @ [Fin 0]
                 in Inr (if \<not> symw \<and> oddM = 0 then butlast w else w))))))"

text \<open>
  Two auxiliary notions for the statements about the taper. \<open>taper_arg t2 k\<close> is the argument
  that \<^verbatim>\<open>np.exp\<close> receives for the index \<open>k\<close> when the quotients and their sum are finite.
  \<open>rounded_exp\<close> is the correctly rounded exponential, one function that \<open>lib_exp\<close> can be.
\<close>

definition taper_arg :: "int \<Rightarrow> int \<Rightarrow> real" where
  "taper_arg t2 k =
     flr (flr (real_of_int t2 / real_of_int k) + flr (real_of_int t2 / real_of_int (k - t2)))"

definition rounded_exp :: "real \<Rightarrow> fval" where
  "rounded_exp x = fl (exp x)"

section \<open>Properties of the rounding to doubles\<close>

text \<open>
  Rounding is monotone and leaves every number with a 53-bit significand unchanged.
\<close>

lemma round_even_of_int: "round_even (real_of_int n) = n"
  by (simp add: round_even_def)

lemma round_even_lower: "\<lfloor>x\<rfloor> \<le> round_even x"
  by (simp add: round_even_def Let_def)

lemma round_even_upper: "round_even x \<le> \<lfloor>x\<rfloor> + 1"
  by (simp add: round_even_def Let_def)

lemma round_even_mono:
  assumes "x \<le> y"
  shows "round_even x \<le> round_even y"
proof (cases "\<lfloor>x\<rfloor> = \<lfloor>y\<rfloor>")
  case True
  then show ?thesis using assms by (auto simp: round_even_def Let_def)
next
  case False
  then have "\<lfloor>x\<rfloor> < \<lfloor>y\<rfloor>" using assms floor_mono [of x y] by linarith
  then have "round_even x \<le> \<lfloor>y\<rfloor>" using round_even_upper [of x] by linarith
  then show ?thesis using round_even_lower [of y] by linarith
qed

lemma round_even_minus: "round_even (- x) = - round_even x"
proof (cases "x = real_of_int \<lfloor>x\<rfloor>")
  case True
  then obtain n where "x = real_of_int n" by blast
  then have "round_even (- x) = - n" "round_even x = n"
    using round_even_of_int [of "- n"] round_even_of_int [of n] by simp_all
  then show ?thesis by simp
next
  case False
  then have lt: "real_of_int \<lfloor>x\<rfloor> < x" using of_int_floor_le [of x] by linarith
  have lt1: "x < real_of_int \<lfloor>x\<rfloor> + 1" by linarith
  have fm: "\<lfloor>- x\<rfloor> = - \<lfloor>x\<rfloor> - 1"
  proof (rule floor_unique)
    show "real_of_int (- \<lfloor>x\<rfloor> - 1) \<le> - x" by simp linarith
    show "- x < real_of_int (- \<lfloor>x\<rfloor> - 1) + 1" using lt by simp
  qed
  show ?thesis
    unfolding round_even_def Let_def fm using lt by (auto simp: algebra_simps)
qed

lemma fexp_minus: "fexp (- x) = fexp x"
  by (simp add: fexp_def)

lemma flr_minus: "flr (- x) = - flr x"
  by (simp add: flr_def fexp_minus round_even_minus)

lemma quantum_pos: "0 < (2::real) powi k"
  by (simp add: zero_less_power_int)

lemma powr_powi_2: "(2::real) powr real_of_int k = 2 powi k"
  by (simp add: powr_real_of_int')

lemma fexp_above:
  assumes "0 < x"
  shows "x < 2 powi (fexp x + 1)"
proof -
  have "x < 2 powr real_of_int (\<lfloor>log 2 x\<rfloor> + 1)"
    using floor_log_eq_powr_iff [of x 2 "\<lfloor>log 2 x\<rfloor>"] assms by simp
  then have "x < 2 powi (\<lfloor>log 2 x\<rfloor> + 1)" by (simp only: powr_powi_2)
  also have "\<dots> \<le> 2 powi (fexp x + 1)"
    using assms by (intro power_int_increasing) (simp_all add: fexp_def)
  finally show ?thesis .
qed

lemma fexp_below:
  assumes "0 < x" and "- 1022 \<le> \<lfloor>log 2 x\<rfloor>"
  shows "2 powi fexp x \<le> x"
proof -
  have "2 powr real_of_int \<lfloor>log 2 x\<rfloor> \<le> x"
    using floor_log_eq_powr_iff [of x 2 "\<lfloor>log 2 x\<rfloor>"] assms by simp
  then have "2 powi \<lfloor>log 2 x\<rfloor> \<le> x" by (simp only: powr_powi_2)
  moreover have "fexp x = \<lfloor>log 2 x\<rfloor>" using assms by (simp add: fexp_def)
  ultimately show ?thesis by simp
qed

lemma fexp_mono:
  assumes "0 < x" and "x \<le> y"
  shows "fexp x \<le> fexp y"
proof -
  have "log 2 x \<le> log 2 y" using assms by simp
  then have "\<lfloor>log 2 x\<rfloor> \<le> \<lfloor>log 2 y\<rfloor>" by (rule floor_mono)
  then show ?thesis using assms by (simp add: fexp_def)
qed

lemma flr_pos_eq:
  assumes "0 < x"
  shows "flr x = real_of_int (round_even (x / 2 powi (fexp x - 52))) * 2 powi (fexp x - 52)"
  using assms by (simp add: flr_def)

lemma flr_nonneg:
  assumes "0 \<le> x"
  shows "0 \<le> flr x"
proof (cases "x = 0")
  case True
  then show ?thesis by (simp add: flr_def)
next
  case False
  then have x: "0 < x" using assms by simp
  have "0 \<le> x / 2 powi (fexp x - 52)" using x quantum_pos [of "fexp x - 52"] by simp
  then have "round_even 0 \<le> round_even (x / 2 powi (fexp x - 52))" by (rule round_even_mono)
  then have "0 \<le> round_even (x / 2 powi (fexp x - 52))"
    using round_even_of_int [of 0] by simp
  then show ?thesis using x quantum_pos [of "fexp x - 52"] by (simp add: flr_pos_eq)
qed

lemma quantum_split:
  "(2::real) powi (k + 1) = real_of_int (2 ^ 53) * 2 powi (k - 52)"
  "(2::real) powi k = real_of_int (2 ^ 52) * 2 powi (k - 52)"
proof -
  have "(2::real) powi (53 + (k - 52)) = 2 powi 53 * 2 powi (k - 52)"
    by (rule power_int_add) simp
  moreover have "53 + (k - 52) = k + 1" by simp
  moreover have "(2::real) powi 53 = real_of_int (2 ^ 53)" by simp
  ultimately show "(2::real) powi (k + 1) = real_of_int (2 ^ 53) * 2 powi (k - 52)"
    by (simp only:)
  have "(2::real) powi (52 + (k - 52)) = 2 powi 52 * 2 powi (k - 52)"
    by (rule power_int_add) simp
  moreover have "52 + (k - 52) = k" by simp
  moreover have "(2::real) powi 52 = real_of_int (2 ^ 52)" by simp
  ultimately show "(2::real) powi k = real_of_int (2 ^ 52) * 2 powi (k - 52)"
    by (simp only:)
qed

lemma flr_upper:
  assumes "0 < x"
  shows "flr x \<le> 2 powi (fexp x + 1)"
proof -
  let ?q = "(2::real) powi (fexp x - 52)"
  have q: "0 < ?q" by (rule quantum_pos)
  have "x < real_of_int (2 ^ 53) * ?q"
    using fexp_above [OF assms] by (simp only: quantum_split(1))
  then have "x \<le> real_of_int (2 ^ 53) * ?q" by (rule less_imp_le)
  then have "x / ?q \<le> real_of_int (2 ^ 53)"
    using q by (simp only: pos_divide_le_eq)
  then have "round_even (x / ?q) \<le> round_even (real_of_int (2 ^ 53))"
    by (rule round_even_mono)
  then have "round_even (x / ?q) \<le> 2 ^ 53" by (simp only: round_even_of_int)
  then have "real_of_int (round_even (x / ?q)) \<le> real_of_int (2 ^ 53)"
    by (simp only: of_int_le_iff)
  then have "real_of_int (round_even (x / ?q)) * ?q \<le> real_of_int (2 ^ 53) * ?q"
    using q by (intro mult_right_mono) simp_all
  then show ?thesis by (simp only: flr_pos_eq [OF assms] quantum_split(1))
qed

lemma flr_lower:
  assumes "0 < x" and "2 powi fexp x \<le> x"
  shows "2 powi fexp x \<le> flr x"
proof -
  let ?q = "(2::real) powi (fexp x - 52)"
  have q: "0 < ?q" by (rule quantum_pos)
  have "real_of_int (2 ^ 52) * ?q \<le> x"
    using assms(2) by (simp only: quantum_split(2) [symmetric])
  then have "real_of_int (2 ^ 52) \<le> x / ?q"
    using q by (simp only: pos_le_divide_eq)
  then have "round_even (real_of_int (2 ^ 52)) \<le> round_even (x / ?q)"
    by (rule round_even_mono)
  then have "2 ^ 52 \<le> round_even (x / ?q)" by (simp only: round_even_of_int)
  then have "real_of_int (2 ^ 52) \<le> real_of_int (round_even (x / ?q))"
    by (simp only: of_int_le_iff)
  then have "real_of_int (2 ^ 52) * ?q \<le> real_of_int (round_even (x / ?q)) * ?q"
    using q by (intro mult_right_mono) simp_all
  then show ?thesis
    using quantum_split(2) [of "fexp x"] by (simp only: flr_pos_eq [OF assms(1)])
qed

lemma flr_mono_pos:
  assumes "0 < x" and "x \<le> y"
  shows "flr x \<le> flr y"
proof (cases "fexp x = fexp y")
  case True
  let ?q = "(2::real) powi (fexp y - 52)"
  have q: "0 < ?q" by (rule quantum_pos)
  have "x / ?q \<le> y / ?q" using assms(2) q by (simp add: divide_right_mono)
  then have "round_even (x / ?q) \<le> round_even (y / ?q)" by (rule round_even_mono)
  then have "real_of_int (round_even (x / ?q)) * ?q \<le> real_of_int (round_even (y / ?q)) * ?q"
    using q by (intro mult_right_mono) simp_all
  then show ?thesis using assms by (simp add: flr_pos_eq True)
next
  case False
  then have lt: "fexp x < fexp y" using fexp_mono [OF assms] by simp
  have y: "0 < y" using assms by simp
  have "- 1022 \<le> fexp x" by (simp add: fexp_def)
  then have "- 1022 < fexp y" using lt by simp
  then have unclipped: "- 1022 \<le> \<lfloor>log 2 y\<rfloor>" unfolding fexp_def using y by linarith
  have "flr x \<le> 2 powi (fexp x + 1)" by (rule flr_upper [OF assms(1)])
  also have "\<dots> \<le> 2 powi fexp y" using lt by (intro power_int_increasing) simp_all
  also have "\<dots> \<le> flr y" by (rule flr_lower [OF y fexp_below [OF y unclipped]])
  finally show ?thesis .
qed

lemma flr_mono:
  assumes "x \<le> y"
  shows "flr x \<le> flr y"
proof -
  consider "0 < x" | "x \<le> 0" "0 \<le> y" | "y < 0" by linarith
  then show ?thesis
  proof cases
    case 1
    then show ?thesis using assms by (rule flr_mono_pos)
  next
    case 2
    then have "0 \<le> flr (- x)" "0 \<le> flr y" by (simp_all add: flr_nonneg)
    then show ?thesis by (simp add: flr_minus)
  next
    case 3
    then have "0 < - y" "- y \<le> - x" using assms by simp_all
    then have "flr (- y) \<le> flr (- x)" by (rule flr_mono_pos)
    then show ?thesis by (simp add: flr_minus)
  qed
qed

lemma flr_exact:
  assumes "\<bar>m\<bar> < 2 ^ 53" and "- 1074 \<le> k"
  shows "flr (real_of_int m * 2 powi k) = real_of_int m * 2 powi k"
proof (cases "m = 0")
  case True
  then show ?thesis by (simp add: flr_def)
next
  case False
  define x where "x = real_of_int m * 2 powi k"
  define ex where "ex = fexp x"
  have pk: "0 < (2::real) powi k" by (rule quantum_pos)
  have x0: "x \<noteq> 0" using False pk by (simp add: x_def)
  have ax: "\<bar>x\<bar> = real_of_int \<bar>m\<bar> * 2 powi k" using pk by (simp add: x_def abs_mult)
  have "real_of_int \<bar>m\<bar> < real_of_int (2 ^ 53)" using assms(1) by (simp only: of_int_less_iff)
  then have "\<bar>x\<bar> < real_of_int (2 ^ 53) * 2 powi k"
    unfolding ax using pk by (intro mult_strict_right_mono)
  also have "real_of_int (2 ^ 53) * 2 powi k = 2 powi (k + 53)"
    using power_int_add [of "2::real" k 53] by simp
  finally have xlt: "\<bar>x\<bar> < 2 powi (k + 53)" .
  have le: "ex - 52 \<le> k"
  proof (cases "ex = - 1022")
    case True
    then show ?thesis using assms(2) by simp
  next
    case False
    have "- 1022 \<le> ex" by (simp add: ex_def fexp_def)
    then have "- 1022 < ex" using False by simp
    then have un: "- 1022 \<le> \<lfloor>log 2 \<bar>x\<bar>\<rfloor>" unfolding ex_def fexp_def by linarith
    have ap: "0 < \<bar>x\<bar>" using x0 by simp
    have "2 powi fexp \<bar>x\<bar> \<le> \<bar>x\<bar>" by (rule fexp_below [OF ap]) (use un in simp)
    moreover have "fexp \<bar>x\<bar> = ex" by (simp add: ex_def fexp_def)
    ultimately have "2 powi ex < (2::real) powi (k + 53)" using xlt by simp
    then have "ex < k + 53"
    proof (rule contrapos_pp)
      assume "\<not> ex < k + 53"
      then have "(2::real) powi (k + 53) \<le> 2 powi ex" by (intro power_int_increasing) simp_all
      then show "\<not> 2 powi ex < (2::real) powi (k + 53)" by simp
    qed
    then show ?thesis by simp
  qed
  define j where "j = nat (k - (ex - 52))"
  have kj: "k = (ex - 52) + int j" using le by (simp add: j_def)
  have "(2::real) powi k = 2 powi (ex - 52) * 2 powi int j"
    unfolding kj by (rule power_int_add) simp
  then have pkj: "(2::real) powi k = 2 powi (ex - 52) * 2 ^ j" by (simp only: power_int_of_nat)
  have q: "0 < (2::real) powi (ex - 52)" by (rule quantum_pos)
  have "x / 2 powi (ex - 52) = real_of_int m * 2 ^ j"
    unfolding x_def pkj using q by simp
  also have "\<dots> = real_of_int (m * 2 ^ j)" by simp
  finally have "round_even (x / 2 powi (ex - 52)) = m * 2 ^ j"
    by (simp only: round_even_of_int)
  then have "flr x = real_of_int (m * 2 ^ j) * 2 powi (ex - 52)"
    using x0 by (simp add: flr_def ex_def)
  also have "\<dots> = x" unfolding x_def pkj by simp
  finally show ?thesis by (simp only: x_def)
qed

lemma flr_of_int:
  assumes "\<bar>m\<bar> < 2 ^ 53"
  shows "flr (real_of_int m) = real_of_int m"
  using flr_exact [OF assms, of 0] by simp

lemma flr_le_dyadic:
  assumes "x \<le> real_of_int m * 2 powi k" and "\<bar>m\<bar> < 2 ^ 53" and "- 1074 \<le> k"
  shows "flr x \<le> real_of_int m * 2 powi k"
  using flr_mono [OF assms(1)] flr_exact [OF assms(2,3)] by simp

lemma flr_ge_dyadic:
  assumes "real_of_int m * 2 powi k \<le> x" and "\<bar>m\<bar> < 2 ^ 53" and "- 1074 \<le> k"
  shows "real_of_int m * 2 powi k \<le> flr x"
  using flr_mono [OF assms(1)] flr_exact [OF assms(2,3)] by simp

lemma flr_le_int:
  assumes "x \<le> real_of_int m" and "\<bar>m\<bar> < 2 ^ 53"
  shows "flr x \<le> real_of_int m"
  using flr_mono [OF assms(1)] flr_of_int [OF assms(2)] by simp

lemma flr_ge_int:
  assumes "real_of_int m \<le> x" and "\<bar>m\<bar> < 2 ^ 53"
  shows "real_of_int m \<le> flr x"
  using flr_mono [OF assms(1)] flr_of_int [OF assms(2)] by simp

lemma flr_pow2: "flr (2 powi k) = 2 powi k" if "- 1074 \<le> k"
  using flr_exact [of 1 k] that by simp

lemma fl_finite:
  assumes "\<bar>x\<bar> \<le> 2 ^ 1023"
  shows "fl x = Fin (flr x)"
proof -
  have e: "(2::real) ^ 1023 = real_of_int 1 * 2 powi 1023" by simp
  have "flr x \<le> real_of_int 1 * 2 powi 1023"
    by (rule flr_le_dyadic) (use assms in \<open>simp_all only: e [symmetric]\<close>, simp_all)
  moreover have "flr (- x) \<le> real_of_int 1 * 2 powi 1023"
    by (rule flr_le_dyadic) (use assms in \<open>simp_all only: e [symmetric]\<close>, simp_all)
  ultimately have "flr x \<le> 2 ^ 1023" "- (2 ^ 1023) \<le> flr x"
    by (simp_all add: flr_minus)
  moreover have "(2::real) ^ 1023 < 2 ^ 1024" by simp
  ultimately have "\<not> 2 ^ 1024 \<le> flr x" "\<not> flr x \<le> - (2 ^ 1024)" by linarith+
  then show ?thesis by (simp add: fl_def Let_def)
qed


lemma fl_of_int:
  assumes "\<bar>m\<bar> < 2 ^ 53"
  shows "fl (real_of_int m) = Fin (real_of_int m)"
proof -
  have "real_of_int \<bar>m\<bar> < real_of_int (2 ^ 53)" using assms by (simp only: of_int_less_iff)
  then have "\<bar>real_of_int m\<bar> \<le> 2 ^ 1023" by simp
  then show ?thesis by (simp add: fl_finite flr_of_int [OF assms])
qed

lemma fl_dyadic:
  assumes "\<bar>m\<bar> < 2 ^ 53" and "- 1074 \<le> k" and "k \<le> 970"
  shows "fl (real_of_int m * 2 powi k) = Fin (real_of_int m * 2 powi k)"
proof -
  have "real_of_int \<bar>m\<bar> \<le> real_of_int (2 ^ 53)" using assms(1) by (simp only: of_int_le_iff)
  moreover have "(2::real) powi k \<le> 2 powi 970" using assms(3) by (intro power_int_increasing) simp_all
  ultimately have "real_of_int \<bar>m\<bar> * 2 powi k \<le> real_of_int (2 ^ 53) * 2 powi 970"
    by (intro mult_mono) (simp_all add: zero_le_power_int)
  also have "\<dots> = 2 ^ 1023" by simp
  finally have "\<bar>real_of_int m * 2 powi k\<bar> \<le> 2 ^ 1023"
    by (simp add: abs_mult zero_le_power_int)
  then show ?thesis by (simp add: fl_finite flr_exact [OF assms(1,2)])
qed

lemma py_float_of_int_small: "\<bar>m\<bar> < 2 ^ 53 \<Longrightarrow> py_float_of_int m = Inr (Fin (real_of_int m))"
  by (simp add: py_float_of_int_def fl_of_int)

section \<open>Properties of the Planck-taper window\<close>

lemma then_py_Inr: "then_py (Inr v) f = f v"
  by (simp add: then_py_def)

lemma then_py_Inl: "then_py (Inl err) f = Inl err"
  by (simp add: then_py_def)

lemma length_arange: "arange a b = Inr ks \<Longrightarrow> length ks = nat (b - a)"
  by (auto simp: arange_def split: if_splits)

lemma arange_ok:
  "- (2 ^ 63) \<le> b - a \<Longrightarrow> b - a < 2 ^ 63 \<Longrightarrow> arange a b = Inr [a..b - 1]"
  by (simp add: arange_def)

lemma np_ones_nonneg: "0 \<le> n \<Longrightarrow> np_ones n = Inr (replicate (nat n) (Fin 1))"
  by (simp add: np_ones_def)

lemma planck_sym_unfold:
  assumes "3 \<le> M"
    and "py_float_mul_int e (M - 1) = Inr (Fin p)"
    and t2: "t2 = min (M div 2) \<lfloor>p\<rfloor>"
    and "- (2 ^ 63) \<le> t2 - 1" and "t2 - 1 < 2 ^ 63"
    and w1: "w1 = map (taper lib_exp t2) [1..t2 - 1]"
  shows "planck lib_exp M e True =
     Inr ([Fin 0] @ w1 @ replicate (nat (M - 2 - int (length w1) * 2)) (Fin 1) @ rev w1 @ [Fin 0])"
proof -
  have width: "py_int_of_float (np_floor (Fin p)) = Inr \<lfloor>p\<rfloor>" by simp
  have ar: "arange 1 t2 = Inr [1..t2 - 1]" by (rule arange_ok [OF assms(4,5)])
  have "t2 \<le> M div 2" by (simp add: t2)
  then have "0 \<le> M - 2 - int (nat (t2 - 1)) * 2" using assms(1) by linarith
  then have np: "np_ones (M - 2 - int (length w1) * 2) =
      Inr (replicate (nat (M - 2 - int (length w1) * 2)) (Fin 1))"
    by (intro np_ones_nonneg) (simp add: w1)
  have c: "\<not> M < 1" "\<not> M < 3" using assms(1) by simp_all
  show ?thesis
    unfolding planck_def Let_def
    by (simp only: c if_False simp_thms assms(2) then_py_Inr width t2 [symmetric] ar
        w1 [symmetric] np)
qed


lemma window_length:
  assumes "3 \<le> M" and t2: "t2 = min (M div 2) width"
    and w1: "w1 = map f [1..t2 - 1]"
  shows "length ([z] @ w1 @ replicate (nat (M - 2 - int (length w1) * 2)) u @ rev w1 @ [z])
     = nat M"
proof -
  have "t2 \<le> M div 2" by (simp add: t2)
  then have "0 \<le> M - 2 - int (length w1) * 2"
    using assms(1) by (simp add: w1) linarith
  then have "2 + 2 * length w1 + nat (M - 2 - int (length w1) * 2) = nat M"
    using assms(1) by linarith
  then show ?thesis by simp
qed












text \<open>
  Claim C10. For every odd \<open>M\<close> and every \<open>e\<close>, the periodic window is exactly the symmetric
  one, an exception included: the internal extension and the drop of the final element
  happen only for even \<open>M\<close>.
\<close>

theorem planck_periodic_odd:
  assumes "odd M"
  shows "planck lib_exp M e False = planck lib_exp M e True"
proof -
  have "M mod 2 \<noteq> 0" using assms by presburger
  then show ?thesis unfolding planck_def Let_def by simp
qed

theorem planck_periodic_odd_witness:
  "\<forall>lib_exp e. planck lib_exp 7 e False = planck lib_exp 7 e True \<and>
     planck lib_exp 1 e False = planck lib_exp 1 e True"
  using planck_periodic_odd [of 7] planck_periodic_odd [of 1] by simp

text \<open>
  Claim C4. For every integer \<open>M \<le> 0\<close> and every \<open>e\<close> the window is the empty sequence and no
  error is raised; for \<open>M = 1\<close> and \<open>M = 2\<close> it is a sequence of \<open>M\<close> ones, in particular
  \<^verbatim>\<open>planck(2, 0.1) = [1, 1]\<close>.
\<close>

theorem planck_small:
  "(M \<le> 0 \<longrightarrow> planck lib_exp M e symw = Inr []) \<and>
   planck lib_exp 1 e symw = Inr [Fin 1] \<and>
   planck lib_exp 2 e symw = Inr [Fin 1, Fin 1] \<and>
   planck lib_exp 2 (fl (1 / 10)) True = Inr [Fin 1, Fin 1]"
  by (simp add: planck_def np_ones_def numeral_2_eq_2)

theorem planck_small_witness:
  "\<forall>lib_exp. planck lib_exp 0 (fl (1 / 10)) True = Inr [] \<and>
     planck lib_exp (- 4) (fl (1 / 10)) True = Inr []"
  using planck_small [of 0 _ "fl (1 / 10)" True] planck_small [of "- 4" _ "fl (1 / 10)" True]
  by simp

text \<open>Facts about the rising taper of lines 223 to 225, in doubles.\<close>

lemma fl_cases: "fl x = Fin (flr x) \<or> fl x = PInf \<or> fl x = NInf"
  by (simp add: fl_def Let_def)

lemma fl_mono:
  assumes "x \<le> y"
  shows "fle (fl x) (fl y)"
proof -
  have "flr x \<le> flr y" by (rule flr_mono [OF assms])
  then show ?thesis by (simp add: fl_def Let_def)
qed

lemma fl_ge_one:
  assumes "1 \<le> x"
  shows "fl x = PInf \<or> (\<exists>s. fl x = Fin s \<and> 1 \<le> s)"
proof -
  have "1 \<le> flr x" using flr_ge_int [of 1 x] assms by simp
  then show ?thesis by (auto simp: fl_def Let_def)
qed

lemma fl_unit:
  assumes "0 \<le> x" and "x \<le> 1"
  shows "\<exists>u. fl x = Fin u \<and> 0 \<le> u \<and> u \<le> 1"
proof -
  have "0 \<le> flr x" by (rule flr_nonneg [OF assms(1)])
  moreover have "flr x \<le> 1" using flr_le_int [of x 1] assms(2) by simp
  moreover have "fl x = Fin (flr x)" by (rule fl_finite) (use assms in simp)
  ultimately show ?thesis by blast
qed

text \<open>The last two steps of the taper: add one, take the reciprocal.\<close>

lemma recip_range:
  assumes "fle (Fin 0) v"
  shows "fle (Fin 0) (fdiv fl (Fin 1) (fadd fl v (Fin 1))) \<and>
         fle (fdiv fl (Fin 1) (fadd fl v (Fin 1))) (Fin 1)"
proof (cases v)
  case (Fin a)
  then have a: "0 \<le> a" using assms by simp
  from fl_ge_one [of "a + 1"] a consider "fl (a + 1) = PInf"
    | s where "fl (a + 1) = Fin s" "1 \<le> s" by auto
  then show ?thesis
  proof cases
    case 1
    then show ?thesis by (simp add: Fin)
  next
    case 2
    from fl_unit [of "1 / s"] 2(2) obtain u where "fl (1 / s) = Fin u" "0 \<le> u" "u \<le> 1"
      by auto
    then show ?thesis using 2 by (simp add: Fin)
  qed
next
  case PInf
  then show ?thesis by simp
next
  case NInf
  then show ?thesis using assms by simp
next
  case NaN
  then show ?thesis using assms by simp
qed

lemma recip_antimono:
  assumes "fle (Fin 0) v'" and "fle v' v"
  shows "fle (fdiv fl (Fin 1) (fadd fl v (Fin 1))) (fdiv fl (Fin 1) (fadd fl v' (Fin 1)))"
proof (cases v')
  case (Fin a')
  then have a': "0 \<le> a'" using assms(1) by simp
  from fl_ge_one [of "a' + 1"] a' consider "fl (a' + 1) = PInf"
    | s' where "fl (a' + 1) = Fin s'" "1 \<le> s'" by auto
  then show ?thesis
  proof cases
    case 1
    show ?thesis
    proof (cases v)
      case (Fin a)
      then have "a' \<le> a" using assms(2) \<open>v' = Fin a'\<close> by simp
      then have "fle (fl (a' + 1)) (fl (a + 1))" by (intro fl_mono) simp
      then have "fl (a + 1) = PInf" using 1 by (cases "fl (a + 1)") simp_all
      then show ?thesis using 1 Fin \<open>v' = Fin a'\<close> by simp
    next
      case PInf
      then show ?thesis using 1 \<open>v' = Fin a'\<close> by simp
    next
      case NInf
      then show ?thesis using assms(2) \<open>v' = Fin a'\<close> by simp
    next
      case NaN
      then show ?thesis using assms(2) \<open>v' = Fin a'\<close> by simp
    qed
  next
    case 2
    from fl_unit [of "1 / s'"] 2(2) obtain u' where
      u': "fl (1 / s') = Fin u'" "0 \<le> u'" "u' \<le> 1" by auto
    show ?thesis
    proof (cases v)
      case (Fin a)
      then have aa: "a' \<le> a" using assms(2) \<open>v' = Fin a'\<close> by simp
      then have m: "fle (fl (a' + 1)) (fl (a + 1))" by (intro fl_mono) simp
      from fl_ge_one [of "a + 1"] aa a' consider "fl (a + 1) = PInf"
        | s where "fl (a + 1) = Fin s" "1 \<le> s" by auto
      then show ?thesis
      proof cases
        case 1
        then show ?thesis using 2 u' Fin \<open>v' = Fin a'\<close> by simp
      next
        case 2
        note s = this
        have "s' \<le> s" using m s(1) \<open>fl (a' + 1) = Fin s'\<close> by simp
        then have "1 / s \<le> 1 / s'" using \<open>1 \<le> s'\<close> by (simp add: frac_le)
        then have "fle (fl (1 / s)) (fl (1 / s'))" by (rule fl_mono)
        then show ?thesis
          using s \<open>fl (a' + 1) = Fin s'\<close> \<open>1 \<le> s'\<close> Fin \<open>v' = Fin a'\<close> by simp
      qed
    next
      case PInf
      then show ?thesis using 2 u' \<open>v' = Fin a'\<close> by simp
    next
      case NInf
      then show ?thesis using assms(2) \<open>v' = Fin a'\<close> by simp
    next
      case NaN
      then show ?thesis using assms(2) \<open>v' = Fin a'\<close> by simp
    qed
  qed
next
  case PInf
  then have "v = PInf" using assms(2) by (cases v) simp_all
  then show ?thesis using PInf by simp
next
  case NInf
  then show ?thesis using assms(1) by simp
next
  case NaN
  then show ?thesis using assms(1) by simp
qed

lemma f64_of_int_small: "\<bar>m\<bar> < 2 ^ 53 \<Longrightarrow> f64_of_int m = Fin (real_of_int m)"
  by (simp add: f64_of_int_def fl_of_int)

lemma taper_quotients:
  assumes "1 \<le> k" and "k < t2" and "t2 < 2 ^ 53"
  shows "0 \<le> real_of_int t2 / real_of_int k"
    and "real_of_int t2 / real_of_int k \<le> real_of_int t2"
    and "- real_of_int t2 \<le> real_of_int t2 / real_of_int (k - t2)"
    and "real_of_int t2 / real_of_int (k - t2) \<le> 0"
    and "0 \<le> flr (real_of_int t2 / real_of_int k)"
    and "flr (real_of_int t2 / real_of_int k) \<le> real_of_int t2"
    and "- real_of_int t2 \<le> flr (real_of_int t2 / real_of_int (k - t2))"
    and "flr (real_of_int t2 / real_of_int (k - t2)) \<le> 0"
proof -
  have t: "\<bar>t2\<bar> < 2 ^ 53" "\<bar>- t2\<bar> < 2 ^ 53" using assms by simp_all
  have k1: "1 \<le> real_of_int k" and t0: "0 \<le> real_of_int t2" using assms by simp_all
  have d1: "real_of_int (k - t2) \<le> - 1" using assms(2) by simp
  show q1: "0 \<le> real_of_int t2 / real_of_int k" using k1 t0 by simp
  have "real_of_int t2 / real_of_int k \<le> real_of_int t2 / 1"
    using k1 t0 by (intro divide_left_mono) simp_all
  then show q2: "real_of_int t2 / real_of_int k \<le> real_of_int t2" by simp
  show q3: "real_of_int t2 / real_of_int (k - t2) \<le> 0"
    using d1 t0 by (simp add: divide_nonneg_neg)
  have "real_of_int t2 / (- 1) \<le> real_of_int t2 / real_of_int (k - t2)"
    using d1 t0 by (intro divide_left_mono) (simp_all del: of_int_diff)
  then show q4: "- real_of_int t2 \<le> real_of_int t2 / real_of_int (k - t2)" by simp
  then have q4': "real_of_int (- t2) \<le> real_of_int t2 / real_of_int (k - t2)" by simp
  show "0 \<le> flr (real_of_int t2 / real_of_int k)" by (rule flr_nonneg [OF q1])
  show "flr (real_of_int t2 / real_of_int k) \<le> real_of_int t2"
    by (rule flr_le_int [OF q2 t(1)])
  show "- real_of_int t2 \<le> flr (real_of_int t2 / real_of_int (k - t2))"
    using flr_ge_int [OF q4' t(2)] by simp
  show "flr (real_of_int t2 / real_of_int (k - t2)) \<le> 0"
    using flr_le_int [of _ 0] q3 by simp
qed

lemma taper_finite:
  assumes "1 \<le> k" and "k < t2" and "t2 < 2 ^ 53"
  shows "taper lib_exp t2 k = fdiv fl (Fin 1) (fadd fl (lib_exp (taper_arg t2 k)) (Fin 1))"
proof -
  note q = taper_quotients [OF assms]
  define a where "a = flr (real_of_int t2 / real_of_int k)"
  define b where "b = flr (real_of_int t2 / real_of_int (k - t2))"
  have t: "\<bar>t2\<bar> < 2 ^ 53" "\<bar>k\<bar> < 2 ^ 53" "\<bar>k - t2\<bar> < 2 ^ 53" using assms by simp_all
  have "t2 \<le> 2 ^ 53" using assms(3) by simp
  then have "real_of_int t2 \<le> real_of_int (2 ^ 53)" by (simp only: of_int_le_iff)
  then have big: "real_of_int t2 \<le> 2 ^ 53" by simp
  define B where "B = (2::real) ^ 1023"
  have p53: "2 * (2::real) ^ 53 \<le> B" unfolding B_def by simp
  have k0: "real_of_int k \<noteq> 0" "real_of_int (k - t2) \<noteq> 0" using assms by simp_all
  have "\<bar>real_of_int t2 / real_of_int k\<bar> \<le> B" using q(1,2) big p53 by linarith
  then have fa: "fl (real_of_int t2 / real_of_int k) = Fin a" unfolding a_def B_def by (rule fl_finite)
  have "\<bar>real_of_int t2 / real_of_int (k - t2)\<bar> \<le> B" using q(3,4) big p53 by linarith
  then have fb: "fl (real_of_int t2 / real_of_int (k - t2)) = Fin b"
    unfolding b_def B_def by (rule fl_finite)
  have "\<bar>a + b\<bar> \<le> B" using q(5,6,7,8) big p53 unfolding a_def b_def by linarith
  then have fz: "fl (a + b) = Fin (flr (a + b))" unfolding B_def by (rule fl_finite)
  have ft: "f64_of_int t2 = Fin (real_of_int t2)" by (rule f64_of_int_small [OF t(1)])
  have fk: "f64_of_int k = Fin (real_of_int k)" by (rule f64_of_int_small [OF t(2)])
  have fd: "f64_of_int (k - t2) = Fin (real_of_int (k - t2))"
    by (rule f64_of_int_small [OF t(3)])
  have da: "fdiv fl (f64_of_int t2) (f64_of_int k) = Fin a"
    unfolding ft fk using k0(1) fa by simp
  have db: "fdiv fl (f64_of_int t2) (f64_of_int (k - t2)) = Fin b"
    unfolding ft fd using k0(2) fb by (simp del: of_int_diff)
  show ?thesis
    unfolding taper_def da db taper_arg_def a_def [symmetric] b_def [symmetric]
    by (simp add: fz)
qed

lemma taper_arg_antimono:
  assumes "1 \<le> k" and "k \<le> k'" and "k' < t2"
  shows "taper_arg t2 k' \<le> taper_arg t2 k"
proof -
  have t: "0 \<le> real_of_int t2" using assms by simp
  have "0 < real_of_int k * real_of_int k'" using assms by simp
  then have a: "real_of_int t2 / real_of_int k' \<le> real_of_int t2 / real_of_int k"
    using assms t by (intro divide_left_mono) simp_all
  have "real_of_int (k - t2) < 0" "real_of_int (k' - t2) < 0" using assms by simp_all
  then have "0 < real_of_int (k' - t2) * real_of_int (k - t2)" by (rule mult_neg_neg [rotated])
  then have b: "real_of_int t2 / real_of_int (k' - t2) \<le> real_of_int t2 / real_of_int (k - t2)"
    using assms t by (intro divide_left_mono) simp_all
  show ?thesis
    unfolding taper_arg_def by (intro flr_mono add_mono a b)
qed

lemma taper_mono:
  assumes "1 \<le> k" and "k \<le> k'" and "k' < t2" and "t2 < 2 ^ 53"
    and mono: "\<forall>x y. x \<le> y \<longrightarrow> fle (lib_exp x) (lib_exp y)"
    and nonneg: "\<forall>x. fle (Fin 0) (lib_exp x)"
  shows "fle (taper lib_exp t2 k) (taper lib_exp t2 k')"
proof -
  have k: "k < t2" and k': "1 \<le> k'" using assms by simp_all
  have "fle (lib_exp (taper_arg t2 k')) (lib_exp (taper_arg t2 k))"
    using mono taper_arg_antimono [OF assms(1,2,3)] by blast
  moreover have "fle (Fin 0) (lib_exp (taper_arg t2 k'))" using nonneg by blast
  ultimately show ?thesis
    unfolding taper_finite [OF assms(1) k assms(4)] taper_finite [OF k' assms(3,4)]
    by (intro recip_antimono)
qed

lemma taper_range:
  assumes "1 \<le> k" and "k < t2" and "t2 < 2 ^ 53"
    and nonneg: "\<forall>x. fle (Fin 0) (lib_exp x)"
  shows "fle (Fin 0) (taper lib_exp t2 k) \<and> fle (taper lib_exp t2 k) (Fin 1)"
  unfolding taper_finite [OF assms(1,2,3)] using nonneg by (intro recip_range) blast

lemma sorted_wrt_replicate_refl: "P x x \<Longrightarrow> sorted_wrt P (replicate n x)"
  by (induction n) simp_all

lemma window_nth_taper:
  assumes "1 \<le> k" and "k < t2"
  shows "([z] @ map f [1..t2 - 1] @ ys) ! nat k = f k"
proof -
  have len: "nat k - 1 < length [1..t2 - 1]" using assms by simp
  have "([z] @ map f [1..t2 - 1] @ ys) ! nat k = (map f [1..t2 - 1] @ ys) ! (nat k - 1)"
    using assms by (simp add: nth_Cons')
  also have "\<dots> = map f [1..t2 - 1] ! (nat k - 1)"
    using len by (simp add: nth_append)
  also have "\<dots> = f ([1..t2 - 1] ! (nat k - 1))"
    using len by simp
  also have "[1..t2 - 1] ! (nat k - 1) = 1 + int (nat k - 1)"
    using assms by (intro nth_upto) linarith
  also have "1 + int (nat k - 1) = k" using assms by linarith
  finally show ?thesis .
qed

lemma window_nth_flat:
  assumes "length r \<le> i" and "i < length r + n"
  shows "(r @ replicate n u @ ys) ! i = u"
proof -
  have "i - length r < n" using assms by linarith
  then show ?thesis using assms by (simp add: nth_append)
qed

lemma rise_sorted:
  assumes "\<forall>x\<in>set w1. fle (Fin 0) x \<and> fle x (Fin 1)" and "sorted_wrt fle w1"
  shows "sorted_wrt fle ([Fin 0] @ w1 @ replicate n (Fin 1))"
  using assms by (auto simp: sorted_wrt_append sorted_wrt_replicate_refl)

lemma taper_list_sorted:
  assumes "t2 < 2 ^ 53"
    and mono: "\<forall>x y. x \<le> y \<longrightarrow> fle (lib_exp x) (lib_exp y)"
    and nonneg: "\<forall>x. fle (Fin 0) (lib_exp x)"
  shows "sorted_wrt fle (map (taper lib_exp t2) [1..t2 - 1])"
proof -
  have "sorted_wrt (\<le>) [1..t2 - 1]"
    using sorted_wrt_upto [of 1 "t2 - 1"] by (rule sorted_wrt_mono_rel [rotated]) simp
  then have "sorted_wrt (\<lambda>x y. fle (taper lib_exp t2 x) (taper lib_exp t2 y)) [1..t2 - 1]"
  proof (rule sorted_wrt_mono_rel [rotated])
    fix x y assume "x \<in> set [1..t2 - 1]" "y \<in> set [1..t2 - 1]" "x \<le> y"
    then have "1 \<le> x" "x \<le> y" "y < t2" by simp_all
    then show "fle (taper lib_exp t2 x) (taper lib_exp t2 y)"
      by (rule taper_mono [OF _ _ _ assms(1) mono nonneg])
  qed
  then show ?thesis by (simp add: sorted_wrt_map)
qed

lemma taper_list_range:
  assumes "t2 < 2 ^ 53" and nonneg: "\<forall>x. fle (Fin 0) (lib_exp x)"
  shows "\<forall>x\<in>set (map (taper lib_exp t2) [1..t2 - 1]). fle (Fin 0) x \<and> fle x (Fin 1)"
proof
  fix x assume "x \<in> set (map (taper lib_exp t2) [1..t2 - 1])"
  then obtain k where k: "1 \<le> k" "k < t2" and x: "x = taper lib_exp t2 k" by auto
  show "fle (Fin 0) x \<and> fle x (Fin 1)"
    unfolding x by (rule taper_range [OF k assms])
qed

lemma product_below_half:
  assumes "3 \<le> M" and "M \<le> 2 ^ 53" and "0 < r" and "r < 1 / 2"
  shows "py_float_mul_int (Fin r) (M - 1) = Inr (Fin (flr (r * real_of_int (M - 1))))"
    and "0 \<le> flr (r * real_of_int (M - 1))"
    and "\<lfloor>flr (r * real_of_int (M - 1))\<rfloor> \<le> (M - 1) div 2"
proof -
  have m: "\<bar>M - 1\<bar> < 2 ^ 53" using assms(1,2) by simp
  have conv: "py_float_of_int (M - 1) = Inr (Fin (real_of_int (M - 1)))"
    by (rule py_float_of_int_small [OF m])
  define x where "x = r * real_of_int (M - 1)"
  have mpos: "0 < real_of_int (M - 1)" using assms(1) by simp
  have x0: "0 \<le> x" unfolding x_def using assms(3) mpos by simp
  have "x \<le> 1 / 2 * real_of_int (M - 1)"
    unfolding x_def using assms(4) mpos by (intro mult_right_mono) simp_all
  then have xh: "x \<le> real_of_int (M - 1) * 2 powi (- 1)" by simp
  have fh: "flr x \<le> real_of_int (M - 1) * 2 powi (- 1)"
    by (rule flr_le_dyadic [OF xh m]) simp
  have "M - 1 \<le> 2 ^ 53" using assms(2) by simp
  then have "real_of_int (M - 1) \<le> real_of_int (2 ^ 53)" by (simp only: of_int_le_iff)
  then have mb: "real_of_int (M - 1) \<le> 2 ^ 53" by simp
  define B where "B = (2::real) ^ 1023"
  have "(2::real) ^ 53 \<le> B" unfolding B_def by simp
  moreover have "x \<le> real_of_int (M - 1)" using xh mpos by simp
  ultimately have "\<bar>x\<bar> \<le> B" using x0 mb by linarith
  then have fin: "fl x = Fin (flr x)" unfolding B_def by (rule fl_finite)
  show "py_float_mul_int (Fin r) (M - 1) = Inr (Fin (flr (r * real_of_int (M - 1))))"
    using fin by (simp add: py_float_mul_int_def conv then_py_Inr x_def)
  show "0 \<le> flr (r * real_of_int (M - 1))"
    using flr_nonneg [OF x0] by (simp only: x_def)
  have "flr x \<le> real_of_int (M - 1) / 2" using fh by simp
  then have "\<lfloor>flr x\<rfloor> \<le> \<lfloor>real_of_int (M - 1) / 2\<rfloor>" by (rule floor_mono)
  also have "\<dots> = (M - 1) div 2"
    using floor_divide_of_int_eq [of "M - 1" 2, where ?'a = real] by simp
  finally show "\<lfloor>flr (r * real_of_int (M - 1))\<rfloor> \<le> (M - 1) div 2" by (simp only: x_def)
qed

lemma flr_zero: "flr 0 = 0"
  by (simp add: flr_def)

lemma fl_zero: "fl 0 = Fin 0"
  using fl_of_int [of 0] by simp

lemma rounded_exp_mono: "\<forall>x y. x \<le> y \<longrightarrow> fle (rounded_exp x) (rounded_exp y)"
  unfolding rounded_exp_def by (intro allI impI fl_mono) simp

lemma rounded_exp_nonneg: "\<forall>x. fle (Fin 0) (rounded_exp x)"
proof
  fix x :: real
  have "fle (fl 0) (fl (exp x))" by (rule fl_mono) simp
  then show "fle (Fin 0) (rounded_exp x)" by (simp add: fl_zero rounded_exp_def)
qed

lemma square_step:
  fixes b c x :: real
  assumes "b \<le> x" and "0 \<le> b" and "c \<le> b\<^sup>2"
  shows "c \<le> x\<^sup>2"
proof -
  have "b\<^sup>2 \<le> x\<^sup>2" using assms(1,2) by (rule power_mono)
  with assms(3) show ?thesis by linarith
qed

lemma exp_big: "2 ^ 54 \<le> exp (607 / 16 :: real)"
proof -
  define x :: real where "x = 607 / 8192"
  define q :: real where "q = 144531265 / 134217728"
  have "1 + x + x\<^sup>2 / 2 \<le> exp x" by (rule exp_lower_Taylor_quadratic) (simp add: x_def)
  moreover have "q = 1 + x + x\<^sup>2 / 2"
    by (simp add: x_def q_def power2_eq_square)
  ultimately have qx: "q \<le> exp x" by simp
  have q0: "0 \<le> q" by (simp add: q_def)
  have "q ^ 512 \<le> exp x ^ 512" using qx q0 by (rule power_mono)
  also have "exp x ^ 512 = exp (real 512 * x)" by (rule exp_of_nat_mult [symmetric])
  also have "real 512 * x = 607 / 16" by (simp add: x_def)
  finally have le: "q ^ 512 \<le> exp (607 / 16)" .
  have s0: "144531265 / 134217728 \<le> q" by (simp add: q_def)
  have s1: "289897 / 250000 \<le> q\<^sup>2"
    by (rule square_step [OF s0]) (simp_all add: power2_eq_square)
  have s2: "336161 / 250000 \<le> (q\<^sup>2)\<^sup>2"
    by (rule square_step [OF s1]) (simp_all add: power2_eq_square)
  have s3: "1808067 / 1000000 \<le> ((q\<^sup>2)\<^sup>2)\<^sup>2"
    by (rule square_step [OF s2]) (simp_all add: power2_eq_square)
  have s4: "1634553 / 500000 \<le> (((q\<^sup>2)\<^sup>2)\<^sup>2)\<^sup>2"
    by (rule square_step [OF s3]) (simp_all add: power2_eq_square)
  have s5: "213741 / 20000 \<le> ((((q\<^sup>2)\<^sup>2)\<^sup>2)\<^sup>2)\<^sup>2"
    by (rule square_step [OF s4]) (simp_all add: power2_eq_square)
  have s6: "114213 / 1000 \<le> (((((q\<^sup>2)\<^sup>2)\<^sup>2)\<^sup>2)\<^sup>2)\<^sup>2"
    by (rule square_step [OF s5]) (simp_all add: power2_eq_square)
  have s7: "65223 / 5 \<le> ((((((q\<^sup>2)\<^sup>2)\<^sup>2)\<^sup>2)\<^sup>2)\<^sup>2)\<^sup>2"
    by (rule square_step [OF s6]) (simp_all add: power2_eq_square)
  have s8: "170161500 \<le> (((((((q\<^sup>2)\<^sup>2)\<^sup>2)\<^sup>2)\<^sup>2)\<^sup>2)\<^sup>2)\<^sup>2"
    by (rule square_step [OF s7]) (simp_all add: power2_eq_square)
  have s9: "2 ^ 54 \<le> ((((((((q\<^sup>2)\<^sup>2)\<^sup>2)\<^sup>2)\<^sup>2)\<^sup>2)\<^sup>2)\<^sup>2)\<^sup>2"
    by (rule square_step [OF s8]) (simp_all add: power2_eq_square)
  have "((((((((q\<^sup>2)\<^sup>2)\<^sup>2)\<^sup>2)\<^sup>2)\<^sup>2)\<^sup>2)\<^sup>2)\<^sup>2 = q ^ 512"
    by (simp only: power_mult [symmetric]) simp
  with s9 le show ?thesis by linarith
qed

lemma exp_tiny: "z \<le> - (607 / 16) \<Longrightarrow> 2 * exp (z :: real) \<le> 2 powi (- 53)"
proof -
  assume z: "z \<le> - (607 / 16)"
  have "exp z \<le> exp (- (607 / 16))" using z by simp
  also have "\<dots> = inverse (exp (607 / 16))" by (rule exp_minus)
  also have "\<dots> \<le> inverse (2 ^ 54)" using exp_big by (intro le_imp_inverse_le) simp_all
  finally have "exp z \<le> inverse (2 ^ 54)" .
  moreover have "(2::real) powi (- 53) = 2 * inverse (2 ^ 54)"
    by (simp add: power_int_minus)
  ultimately show ?thesis by linarith
qed

lemma flr_one_plus_tiny:
  assumes "0 \<le> v" and "v \<le> 2 powi (- 53)"
  shows "flr (1 + v) = 1"
proof -
  have v2: "v \<le> 1 / 2 ^ 53" using assms(2) by (simp add: power_int_minus field_simps)
  have small: "v * 2 ^ 52 \<le> 1 / 2"
  proof -
    have "v * 2 ^ 52 \<le> (1 / 2 ^ 53) * 2 ^ 52" using v2 by (intro mult_right_mono) simp_all
    also have "\<dots> = 1 / 2" by simp
    finally show ?thesis .
  qed
  have v1: "v < 1" using v2 by (simp add: field_simps)
  have fl0: "\<lfloor>log 2 (1 + v)\<rfloor> = 0"
  proof (rule floor_unique)
    show "of_int 0 \<le> log 2 (1 + v)" using assms(1) by simp
    have "log 2 (1 + v) < log 2 2" using assms(1) v1 by (subst log_less_cancel_iff) simp_all
    then show "log 2 (1 + v) < of_int 0 + 1" by simp
  qed
  have fe: "fexp (1 + v) = 0" using assms(1) by (simp add: fexp_def fl0)
  have q: "(1 + v) / 2 powi (0 - 52) = 2 ^ 52 + v * 2 ^ 52"
    by (simp add: power_int_minus field_simps)
  have fq: "\<lfloor>(2::real) ^ 52 + v * 2 ^ 52\<rfloor> = 2 ^ 52"
  proof (rule floor_unique)
    show "of_int (2 ^ 52) \<le> (2::real) ^ 52 + v * 2 ^ 52" using assms(1) by simp
    show "(2::real) ^ 52 + v * 2 ^ 52 < of_int (2 ^ 52) + 1" using small by simp
  qed
  have re: "round_even ((2::real) ^ 52 + v * 2 ^ 52) = 2 ^ 52"
    unfolding round_even_def Let_def fq using small by simp
  have ne: "1 + v \<noteq> 0" using assms(1) by linarith
  show ?thesis
    unfolding flr_def fe q re using ne by (simp add: power_int_minus)
qed

lemma fl_four_tenths:
  "\<exists>r. fl (4 / 10) = Fin r \<and> 6553 / 16384 \<le> r \<and> r \<le> 6554 / 16384"
proof -
  have "\<bar>4 / 10 :: real\<bar> \<le> 2 ^ 1023" by simp
  then have "fl (4 / 10) = Fin (flr (4 / 10))" by (rule fl_finite)
  moreover have "6553 / 16384 \<le> flr (4 / 10)"
    using flr_ge_dyadic [of 6553 "- 14" "4 / 10"] by simp
  moreover have "flr (4 / 10) \<le> 6554 / 16384"
    using flr_le_dyadic [of "4 / 10" 6554 "- 14"] by simp
  ultimately show ?thesis by blast
qed

lemma product_four_tenths:
  "\<exists>p. py_float_mul_int (fl (4 / 10)) (100 - 1) = Inr (Fin p) \<and> \<lfloor>p\<rfloor> = 39"
proof -
  from fl_four_tenths obtain r
    where r: "fl (4 / 10) = Fin r" "6553 / 16384 \<le> r" "r \<le> 6554 / 16384" by blast
  define p where "p = flr (r * 99)"
  have "\<bar>r * 99\<bar> \<le> 2 ^ 1023" using r(2,3) by simp
  then have "fl (r * 99) = Fin p" unfolding p_def by (rule fl_finite)
  moreover have "py_float_of_int (100 - 1) = Inr (Fin 99)"
    using py_float_of_int_small [of 99] by simp
  ultimately have "py_float_mul_int (Fin r) (100 - 1) = Inr (Fin p)"
    by (simp add: py_float_mul_int_def then_py_Inr)
  then have prod: "py_float_mul_int (fl (4 / 10)) (100 - 1) = Inr (Fin p)"
    by (simp only: r(1))
  have "79 / 2 \<le> p"
    unfolding p_def using flr_ge_dyadic [of 79 "- 1" "r * 99"] r(2) by simp
  moreover have "p \<le> 159 / 4"
    unfolding p_def using flr_le_dyadic [of "r * 99" 159 "- 2"] r(3) by simp
  ultimately have "\<lfloor>p\<rfloor> = 39" by linarith
  with prod show ?thesis by blast
qed

lemma taper_arg_last: "- 38 \<le> taper_arg 39 38 \<and> taper_arg 39 38 \<le> - (607 / 16)"
proof -
  define a where "a = flr (39 / 38)"
  have a1: "1 \<le> a" unfolding a_def using flr_ge_int [of 1 "39 / 38"] by simp
  have a2: "a \<le> 17 / 16" unfolding a_def using flr_le_dyadic [of "39 / 38" 17 "- 4"] by simp
  have b: "flr (- 39) = - 39" using flr_of_int [of "- 39"] by simp
  have z: "taper_arg 39 38 = flr (a + - 39)"
    by (simp add: taper_arg_def a_def b)
  have "- 38 \<le> flr (a + - 39)" using flr_ge_int [of "- 38" "a + - 39"] a1 by simp
  moreover have "flr (a + - 39) \<le> - (607 / 16)"
    using flr_le_dyadic [of "a + - 39" "- 607" "- 4"] a2 by simp
  ultimately show ?thesis by (simp add: z)
qed

lemma taper_last_one:
  assumes "\<forall>z. - 38 \<le> z \<and> z \<le> - 37 \<longrightarrow> (\<exists>v. lib_exp z = Fin v \<and> 0 \<le> v \<and> v \<le> 2 * exp z)"
  shows "taper lib_exp 39 38 = Fin 1"
proof -
  define z where "z = taper_arg 39 38"
  have zr: "- 38 \<le> z" "z \<le> - (607 / 16)" using taper_arg_last by (simp_all add: z_def)
  then have "- 38 \<le> z \<and> z \<le> - 37" by simp
  with assms obtain v where v: "lib_exp z = Fin v" "0 \<le> v" "v \<le> 2 * exp z" by blast
  have tiny: "v \<le> 2 powi (- 53)" using v(3) exp_tiny [OF zr(2)] by linarith
  have "flr (1 + v) = 1" by (rule flr_one_plus_tiny [OF v(2) tiny])
  then have one: "flr (v + 1) = 1" by (simp add: add.commute)
  have "2 powi (- 53) \<le> (1::real)" by (simp add: power_int_minus field_simps)
  then have "\<bar>v + 1\<bar> \<le> 2 ^ 1023" using v(2) tiny by simp
  then have s: "fl (v + 1) = Fin 1" using fl_finite [of "v + 1"] one by simp
  have u: "fl 1 = Fin 1" using fl_of_int [of 1] by simp
  have "taper lib_exp 39 38 = fdiv fl (Fin 1) (fadd fl (lib_exp z) (Fin 1))"
    unfolding z_def by (rule taper_finite) simp_all
  then show ?thesis by (simp add: v(1) s u)
qed

lemma product_quarter_nine: "py_float_mul_int (Fin (1 / 4)) 9 = Inr (Fin (9 / 4))"
proof -
  have "py_float_of_int 9 = Inr (Fin 9)" using py_float_of_int_small [of 9] by simp
  moreover have "fl (1 / 4 * 9) = Fin (9 / 4)" using fl_dyadic [of 9 "- 2"] by simp
  ultimately show ?thesis by (simp add: py_float_mul_int_def then_py_Inr)
qed

text \<open>
  Claim C3, amended to what holds in doubles. Let \<open>3 \<le> M \<le> 2 ^ 53\<close> and \<open>e\<close> a double in
  \<open>(0, 1/2)\<close>, and let the library's exponential be monotone and never negative. With
  \<open>sym = True\<close>, \<open>p\<close> the double product \<open>e * (M - 1)\<close> and \<open>t2 = min (M div 2) \<lfloor>p\<rfloor>\<close>: the
  window is returned and has length \<open>M\<close>; at every index \<open>k\<close> from \<open>1\<close> to \<open>t2 - 1\<close> it holds
  \<^verbatim>\<open>1 / (exp(t2 / k + t2 / (k - t2)) + 1)\<close> evaluated in doubles; every element lies in
  \<open>[0, 1]\<close>; the window is non-decreasing up to the end of the flat interior (its first
  \<open>M - 1 - n1\<close> elements are sorted, \<open>n1 = t2 - 1\<close> the length of the taper) and non-increasing
  from the start of the flat interior (the rest after the first \<open>n1 + 1\<close> elements is sorted
  when reversed); the flat interior is not empty and holds \<open>1.0\<close> at each of its indices.
  That \<open>1.0\<close> occurs nowhere else is not part of the statement: it fails in doubles.
\<close>

theorem planck_taper_shape:
  assumes "3 \<le> M" and "M \<le> 2 ^ 53" and "0 < r" and "r < 1 / 2"
    and mono: "\<forall>x y. x \<le> y \<longrightarrow> fle (lib_exp x) (lib_exp y)"
    and nonneg: "\<forall>x. fle (Fin 0) (lib_exp x)"
  shows "\<exists>p t2 n1 w.
     py_float_mul_int (Fin r) (M - 1) = Inr (Fin p) \<and>
     t2 = min (M div 2) \<lfloor>p\<rfloor> \<and> n1 = nat (t2 - 1) \<and>
     planck lib_exp M (Fin r) True = Inr w \<and> length w = nat M \<and>
     (\<forall>k. 1 \<le> k \<and> k < t2 \<longrightarrow>
        w ! nat k =
          fdiv fl (Fin 1)
            (fadd fl
               (np_exp lib_exp
                  (fadd fl (fdiv fl (f64_of_int t2) (f64_of_int k))
                           (fdiv fl (f64_of_int t2) (f64_of_int (k - t2)))))
               (Fin 1))) \<and>
     (\<forall>x\<in>set w. fle (Fin 0) x \<and> fle x (Fin 1)) \<and>
     sorted_wrt fle (take (nat M - 1 - n1) w) \<and>
     sorted_wrt fle (rev (drop (n1 + 1) w)) \<and>
     n1 + 1 < nat M - 1 - n1 \<and>
     (\<forall>i. n1 < i \<and> i < nat M - 1 - n1 \<longrightarrow> w ! i = Fin 1)"
proof -
  define p where "p = flr (r * real_of_int (M - 1))"
  define t2 where "t2 = min (M div 2) \<lfloor>p\<rfloor>"
  define n1 where "n1 = nat (t2 - 1)"
  define w1 where "w1 = map (taper lib_exp t2) [1..t2 - 1]"
  define n where "n = nat (M - 2 - int (length w1) * 2)"
  define rs where "rs = [Fin 0] @ w1"
  define w where "w = [Fin 0] @ w1 @ replicate n (Fin 1) @ rev w1 @ [Fin 0]"
  note prod = product_below_half [OF assms(1,2,3,4), folded p_def]
  have t2_ge: "0 \<le> t2" using prod(2) assms(1) by (simp add: t2_def)
  have t2_le: "t2 \<le> (M - 1) div 2" using prod(3) by (simp add: t2_def)
  have "(M - 1) div 2 < M" using assms(1) by linarith
  then have "t2 < M" using t2_le by linarith
  moreover have "M \<le> 9007199254740992" using assms(2) by simp
  ultimately have t2_small: "t2 < 2 ^ 53" by simp
  have lo: "- (2 ^ 63) \<le> t2 - 1" using t2_ge by simp
  have hi: "t2 - 1 < 2 ^ 63" using t2_small by simp
  have pw: "planck lib_exp M (Fin r) True = Inr w"
    unfolding w_def n_def by (rule planck_sym_unfold [OF assms(1) prod(1) t2_def lo hi w1_def])
  have len: "length w = nat M"
    unfolding w_def n_def by (rule window_length [OF assms(1) t2_def w1_def])
  have lw1: "length w1 = n1" by (simp add: w1_def n1_def)
  have lr: "length rs = n1 + 1" by (simp add: rs_def lw1)
  have wr: "w = rs @ replicate n (Fin 1) @ rev rs" by (simp add: w_def rs_def)
  have npos: "0 < n" unfolding n_def lw1 n1_def using t2_le assms(1) by linarith
  have nM: "n1 + 1 + n = nat M - 1 - n1"
    unfolding n_def lw1 n1_def using t2_le assms(1) by linarith
  have w1_range: "\<forall>x\<in>set w1. fle (Fin 0) x \<and> fle x (Fin 1)"
    unfolding w1_def by (rule taper_list_range [OF t2_small nonneg])
  have w1_sorted: "sorted_wrt fle w1"
    unfolding w1_def by (rule taper_list_sorted [OF t2_small mono nonneg])
  have rise: "sorted_wrt fle (rs @ replicate n (Fin 1))"
    unfolding rs_def using rise_sorted [OF w1_range w1_sorted] by simp
  have c1: "\<forall>k. 1 \<le> k \<and> k < t2 \<longrightarrow>
        w ! nat k =
          fdiv fl (Fin 1)
            (fadd fl
               (np_exp lib_exp
                  (fadd fl (fdiv fl (f64_of_int t2) (f64_of_int k))
                           (fdiv fl (f64_of_int t2) (f64_of_int (k - t2)))))
               (Fin 1))"
  proof (intro allI impI)
    fix k assume "1 \<le> k \<and> k < t2"
    then have k: "1 \<le> k" "k < t2" by simp_all
    have "w ! nat k = taper lib_exp t2 k"
      unfolding w_def w1_def by (rule window_nth_taper [OF k])
    then show "w ! nat k =
          fdiv fl (Fin 1)
            (fadd fl
               (np_exp lib_exp
                  (fadd fl (fdiv fl (f64_of_int t2) (f64_of_int k))
                           (fdiv fl (f64_of_int t2) (f64_of_int (k - t2)))))
               (Fin 1))"
      by (simp only: taper_def)
  qed
  have c2: "\<forall>x\<in>set w. fle (Fin 0) x \<and> fle x (Fin 1)"
    using w1_range by (auto simp: w_def)
  have "take (nat M - 1 - n1) w = rs @ replicate n (Fin 1)"
    unfolding wr nM [symmetric] using lr by simp
  then have c3: "sorted_wrt fle (take (nat M - 1 - n1) w)" using rise by simp
  have "drop (n1 + 1) w = replicate n (Fin 1) @ rev rs" unfolding wr using lr by simp
  then have "rev (drop (n1 + 1) w) = rs @ replicate n (Fin 1)" by simp
  then have c4: "sorted_wrt fle (rev (drop (n1 + 1) w))" using rise by simp
  have c5: "n1 + 1 < nat M - 1 - n1" using nM npos by linarith
  have c6: "\<forall>i. n1 < i \<and> i < nat M - 1 - n1 \<longrightarrow> w ! i = Fin 1"
  proof (intro allI impI)
    fix i assume "n1 < i \<and> i < nat M - 1 - n1"
    then have "length rs \<le> i" "i < length rs + n" using lr nM by linarith+
    then show "w ! i = Fin 1" unfolding wr by (rule window_nth_flat)
  qed
  show ?thesis
    by (intro exI [of _ p] exI [of _ t2] exI [of _ n1] exI [of _ w] conjI)
      (fact prod(1) t2_def n1_def pw len c1 c2 c3 c4 c5 c6)+
qed

theorem planck_taper_shape_witness:
  "\<exists>w. planck rounded_exp 10 (Fin (1 / 4)) True = Inr w \<and> length w = 10 \<and>
     w ! 1 = fdiv fl (Fin 1)
            (fadd fl
               (np_exp rounded_exp
                  (fadd fl (fdiv fl (f64_of_int 2) (f64_of_int 1))
                           (fdiv fl (f64_of_int 2) (f64_of_int (1 - 2)))))
               (Fin 1)) \<and>
     (\<forall>x\<in>set w. fle (Fin 0) x \<and> fle x (Fin 1)) \<and>
     sorted_wrt fle (take 8 w) \<and> sorted_wrt fle (rev (drop 2 w)) \<and>
     w ! 2 = Fin 1 \<and> w ! 3 = Fin 1 \<and> w ! 4 = Fin 1 \<and> w ! 5 = Fin 1 \<and> w ! 6 = Fin 1 \<and>
     w ! 7 = Fin 1"
proof -
  have "3 \<le> (10::int)" "(10::int) \<le> 2 ^ 53" "0 < (1 / 4 :: real)" "(1 / 4 :: real) < 1 / 2"
    by simp_all
  from planck_taper_shape [OF this rounded_exp_mono rounded_exp_nonneg]
  obtain p t2 n1 w where
    p: "py_float_mul_int (Fin (1 / 4)) (10 - 1) = Inr (Fin p)"
    and t2: "t2 = min (10 div 2) \<lfloor>p\<rfloor>" and n1: "n1 = nat (t2 - 1)"
    and w: "planck rounded_exp 10 (Fin (1 / 4)) True = Inr w" and len: "length w = nat 10"
    and tp: "\<forall>k. 1 \<le> k \<and> k < t2 \<longrightarrow>
        w ! nat k =
          fdiv fl (Fin 1)
            (fadd fl
               (np_exp rounded_exp
                  (fadd fl (fdiv fl (f64_of_int t2) (f64_of_int k))
                           (fdiv fl (f64_of_int t2) (f64_of_int (k - t2)))))
               (Fin 1))"
    and range: "\<forall>x\<in>set w. fle (Fin 0) x \<and> fle x (Fin 1)"
    and rise: "sorted_wrt fle (take (nat 10 - 1 - n1) w)"
    and fall: "sorted_wrt fle (rev (drop (n1 + 1) w))"
    and flat: "\<forall>i. n1 < i \<and> i < nat 10 - 1 - n1 \<longrightarrow> w ! i = Fin 1"
    by blast
  have "p = 9 / 4" using p product_quarter_nine by simp
  then have "2 \<le> p" "p < 3" by simp_all
  then have fp: "\<lfloor>p\<rfloor> = 2" by linarith
  have t2v: "t2 = 2" by (simp add: t2 fp)
  have n1v: "n1 = 1" by (simp add: n1 t2v)
  have one: "w ! 1 = fdiv fl (Fin 1)
            (fadd fl
               (np_exp rounded_exp
                  (fadd fl (fdiv fl (f64_of_int 2) (f64_of_int 1))
                           (fdiv fl (f64_of_int 2) (f64_of_int (1 - 2)))))
               (Fin 1))"
    using tp [THEN spec, of 1] unfolding t2v by simp
  have f: "w ! 2 = Fin 1" "w ! 3 = Fin 1" "w ! 4 = Fin 1" "w ! 5 = Fin 1" "w ! 6 = Fin 1"
    "w ! 7 = Fin 1"
    using flat unfolding n1v by simp_all
  have "sorted_wrt fle (take 8 w)" using rise unfolding n1v by simp
  moreover have "sorted_wrt fle (rev (drop 2 w))"
    using fall unfolding n1v by (simp add: numeral_2_eq_2)
  moreover have "length w = 10" using len by simp
  ultimately show ?thesis using w one range f by blast
qed

text \<open>
  The claim as stated says that \<open>1.0\<close> is attained only inside the flat region. For \<open>M = 100\<close>
  and \<^verbatim>\<open>e = 0.4\<close> the half-width is \<open>t2 = 39\<close> and the flat interior has the indices \<open>39\<close> to
  \<open>60\<close>; the taper at \<open>k = 38\<close> has an argument below \<open>- 37.9\<close>, its exponential is below
  \<open>2 powi (- 53)\<close>, and \<open>exp z + 1\<close> rounds to \<open>1.0\<close>: the window holds \<open>1.0\<close> at index \<open>38\<close>.
  This is so for every exponential that returns, on \<open>[- 38, - 37]\<close>, a finite value between
  \<open>0\<close> and twice the exact one.
\<close>

theorem planck_one_before_flat:
  "\<not> (\<exists>lib_exp w.
        (\<forall>z. - 38 \<le> z \<and> z \<le> - 37 \<longrightarrow> (\<exists>v. lib_exp z = Fin v \<and> 0 \<le> v \<and> v \<le> 2 * exp z)) \<and>
        planck lib_exp 100 (fl (4 / 10)) True = Inr w \<and>
        (\<forall>i<100. w ! i = Fin 1 \<longrightarrow> 38 < i \<and> i < 61))"
proof
  assume "\<exists>lib_exp w.
        (\<forall>z. - 38 \<le> z \<and> z \<le> - 37 \<longrightarrow> (\<exists>v. lib_exp z = Fin v \<and> 0 \<le> v \<and> v \<le> 2 * exp z)) \<and>
        planck lib_exp 100 (fl (4 / 10)) True = Inr w \<and>
        (\<forall>i<100. w ! i = Fin 1 \<longrightarrow> 38 < i \<and> i < 61)"
  then obtain lib_exp w
    where ex: "\<forall>z. - 38 \<le> z \<and> z \<le> - 37 \<longrightarrow> (\<exists>v. lib_exp z = Fin v \<and> 0 \<le> v \<and> v \<le> 2 * exp z)"
      and pw: "planck lib_exp 100 (fl (4 / 10)) True = Inr w"
      and flat: "\<forall>i<100. w ! i = Fin 1 \<longrightarrow> 38 < i \<and> i < 61"
    by blast
  from product_four_tenths obtain p
    where prod: "py_float_mul_int (fl (4 / 10)) (100 - 1) = Inr (Fin p)" and fp: "\<lfloor>p\<rfloor> = 39"
    by blast
  have t2: "(39::int) = min (100 div 2) \<lfloor>p\<rfloor>" by (simp add: fp)
  define w1 where "w1 = map (taper lib_exp 39) [1..39 - 1]"
  define ys where "ys = replicate (nat (100 - 2 - int (length w1) * 2)) (Fin 1) @ rev w1 @ [Fin 0]"
  have "planck lib_exp 100 (fl (4 / 10)) True =
     Inr ([Fin 0] @ w1 @ replicate (nat (100 - 2 - int (length w1) * 2)) (Fin 1) @ rev w1 @ [Fin 0])"
    by (rule planck_sym_unfold [OF _ prod t2 _ _ w1_def]) simp_all
  with pw have w: "w = [Fin 0] @ map (taper lib_exp 39) [1..39 - 1] @ ys"
    by (simp add: ys_def w1_def)
  have "w ! nat 38 = taper lib_exp 39 38"
    unfolding w by (rule window_nth_taper) simp_all
  then have "w ! 38 = Fin 1" using taper_last_one [OF ex] by simp
  moreover have "(38::nat) < 100" by simp
  ultimately have "(38::nat) < 38" using flat by blast
  then show False by simp
qed

section \<open>Properties of the mass conversions\<close>



















section \<open>Properties of the single-sided spectrum\<close>

text \<open>
  Claim C6, amended to non-empty series. For every non-empty series \<open>ht\<close> of length \<open>N\<close> and
  every \<open>fs > 0\<close>, with \<open>p\<close> the series padded by one zero when \<open>N\<close> is odd and \<open>L\<close> its
  length: \<open>L\<close> is \<open>N\<close> or \<open>N + 1\<close>; the spectrum is the real-input transform of \<open>p\<close> divided by
  \<open>fs\<close>; the grid has \<open>L div 2 + 1\<close> evenly spaced points from \<open>0\<close> to \<open>fs / 2\<close>; spectrum and
  grid have the same length, \<open>N div 2 + 1\<close> for even \<open>N\<close> and \<open>(N + 1) div 2 + 1\<close> for odd \<open>N\<close>.
\<close>

theorem nfft_spectrum:
  assumes "ht \<noteq> []" and "0 < fs"
    and p: "p = (if odd (length ht) then ht @ [0] else ht)"
    and L: "L = length p"
  shows "\<exists>hf ff. nfft ht fs = Inr (hf, ff) \<and>
     L = (if even (length ht) then length ht else length ht + 1) \<and>
     length hf = L div 2 + 1 \<and> length ff = L div 2 + 1 \<and>
     (\<forall>k\<le>L div 2. hf ! k =
         (\<Sum>j<L. complex_of_real (p ! j) * cis (- 2 * pi * real k * real j / real L))
           / complex_of_real fs) \<and>
     (\<forall>k\<le>L div 2. ff ! k = real k * (fs / 2 / real (L div 2))) \<and>
     ff ! 0 = 0 \<and> ff ! (L div 2) = fs / 2 \<and>
     length hf = (if even (length ht) then length ht div 2 + 1 else (length ht + 1) div 2 + 1)"
proof -
  have p1: "(if length ht mod 2 = 1 then ht @ [0] else ht) = p"
    by (simp add: p odd_iff_mod_2_eq_one)
  have Leven: "even L" by (simp add: L p)
  have Lpos: "0 < L" using assms(1) by (simp add: L p)
  then have L2: "0 < L div 2" using Leven by (auto elim: evenE)
  have fl: "\<lfloor>real L / 2 + 1\<rfloor> = int (L div 2 + 1)"
    using Leven by (auto elim!: evenE)
  define lin where "lin = map (\<lambda>i. real i * (1 / real (L div 2))) [0..<L div 2 + 1]"
  have num: "\<not> int (L div 2 + 1) < 0" "int (L div 2 + 1) \<noteq> 1"
    "nat (int (L div 2 + 1)) = L div 2 + 1"
    "real_of_int (int (L div 2 + 1) - 1) = real (L div 2)"
    using L2 by simp_all
  have lin: "np_linspace 0 1 \<lfloor>real L / 2 + 1\<rfloor> = Inr lin"
    unfolding fl np_linspace_def lin_def by (simp only: num if_False) simp
  define hf0 where "hf0 = map (\<lambda>k. \<Sum>j<L. complex_of_real (p ! j) *
      cis (- 2 * pi * real k * real j / real L)) [0..<L div 2 + 1]"
  have rf: "rfft p = Inr hf0"
    unfolding rfft_def Let_def hf0_def L [symmetric] using Lpos by simp
  define hf where "hf = map (\<lambda>z. z / complex_of_real fs) hf0"
  define ff where "ff = map (\<lambda>x. fs / 2 * x) lin"
  have res: "nfft ht fs = Inr (hf, ff)"
    unfolding nfft_def Let_def p1 L [symmetric] lin rf hf_def ff_def then_py_Inr
    using assms(2) by simp
  have c1: "L = (if even (length ht) then length ht else length ht + 1)" by (simp add: L p)
  have c2: "length hf = L div 2 + 1" by (simp add: hf_def hf0_def)
  have c3: "length ff = L div 2 + 1" by (simp add: ff_def lin_def)
  have c4: "\<forall>k\<le>L div 2. hf ! k =
         (\<Sum>j<L. complex_of_real (p ! j) * cis (- 2 * pi * real k * real j / real L))
           / complex_of_real fs"
  proof (intro allI impI)
    fix k assume "k \<le> L div 2"
    then have k: "k < length [0..<L div 2 + 1]" by simp
    then have "[0..<L div 2 + 1] ! k = k" by (simp del: upt_Suc)
    then show "hf ! k =
         (\<Sum>j<L. complex_of_real (p ! j) * cis (- 2 * pi * real k * real j / real L))
           / complex_of_real fs"
      unfolding hf_def hf0_def using k by (simp del: upt_Suc)
  qed
  have c5: "\<forall>k\<le>L div 2. ff ! k = real k * (fs / 2 / real (L div 2))"
  proof (intro allI impI)
    fix k assume "k \<le> L div 2"
    then have k: "k < length [0..<L div 2 + 1]" by simp
    then have "[0..<L div 2 + 1] ! k = k" by (simp del: upt_Suc)
    then show "ff ! k = real k * (fs / 2 / real (L div 2))"
      unfolding ff_def lin_def using k by (simp del: upt_Suc)
  qed
  have c6: "ff ! 0 = 0" using c5 by simp
  have c7: "ff ! (L div 2) = fs / 2" using c5 L2 by simp
  have c8: "length hf =
      (if even (length ht) then length ht div 2 + 1 else (length ht + 1) div 2 + 1)"
    unfolding c2 by (simp add: c1)
  show ?thesis
    by (intro exI [of _ hf] exI [of _ ff] conjI) (fact res c1 c2 c3 c4 c5 c6 c7 c8)+
qed

theorem nfft_spectrum_witness:
  "\<exists>hf ff. nfft [1, 2, 3] 8 = Inr (hf, ff) \<and> length hf = 3 \<and> length ff = 3 \<and>
     ff ! 0 = 0 \<and> ff ! 2 = 4"
proof -
  have "\<exists>hf ff. nfft [1, 2, 3] 8 = Inr (hf, ff) \<and>
     (4::nat) = (if even (length [1, 2, 3 :: real]) then length [1, 2, 3 :: real]
                 else length [1, 2, 3 :: real] + 1) \<and>
     length hf = 4 div 2 + 1 \<and> length ff = 4 div 2 + 1 \<and>
     (\<forall>k\<le>4 div 2. hf ! k =
         (\<Sum>j<4. complex_of_real ([1, 2, 3, 0] ! j) * cis (- 2 * pi * real k * real j / real 4))
           / complex_of_real 8) \<and>
     (\<forall>k\<le>4 div 2. ff ! k = real k * (8 / 2 / real (4 div 2))) \<and>
     ff ! 0 = 0 \<and> ff ! (4 div 2) = 8 / 2 \<and>
     length hf = (if even (length [1, 2, 3 :: real]) then length [1, 2, 3 :: real] div 2 + 1
                  else (length [1, 2, 3 :: real] + 1) div 2 + 1)"
    by (rule nfft_spectrum) simp_all
  then obtain hf ff where r: "nfft [1, 2, 3] 8 = Inr (hf, ff)"
    and lh: "length hf = 4 div 2 + 1" and lf: "length ff = 4 div 2 + 1"
    and f0: "ff ! 0 = 0" and f2: "ff ! (4 div 2) = 8 / 2"
    by blast
  have lh': "length hf = 3" and lf': "length ff = 3" using lh lf by simp_all
  have f2': "ff ! 2 = 4" using f2 by simp
  show ?thesis by (intro exI [of _ hf] exI [of _ ff] conjI) (fact r lh' lf' f0 f2')+
qed

text \<open>
  The claim as stated covers the empty series; there the transform raises \<^verbatim>\<open>ValueError\<close>
  and no spectrum is returned.
\<close>

theorem nfft_empty_raises: "nfft [] 1 = Inl ValueError"
  by (simp add: nfft_def np_linspace_def rfft_def then_py_def)

section \<open>Properties of the waveform loader\<close>

lemma for_each_raises:
  assumes "\<And>x st. body x st = Inl err" and "xs \<noteq> []"
  shows "for_each body xs st = Inl err"
  using assms(2) by (cases xs) (simp_all add: assms(1) then_py_Inl)

lemma default_body_raises:
  assumes "waveform extraction = Some grp"
  shows "default_body waveform extraction mode st = Inl TypeError"
  using assms
  by (simp add: default_body_def getitem_def str_getitem_def then_py_Inr then_py_Inl)

lemma default_modes_eval:
  "default_modes =
     [(2, - 2), (2, - 1), (2, 0), (2, 1), (2, 2),
      (3, - 3), (3, - 2), (3, - 1), (3, 0), (3, 1), (3, 2), (3, 3),
      (4, - 4), (4, - 3), (4, - 2), (4, - 1), (4, 0), (4, 1), (4, 2), (4, 3), (4, 4)]"
  by (simp add: default_modes_def py_range_def upto.simps)

lemma load_default_raises:
  assumes "deepdish_load file_name = Inr waveform" and "waveform extraction = Some grp"
  shows "load_sxs_waveform deepdish_load file_name None extraction = Inl TypeError"
proof -
  have "default_modes \<noteq> []" by (simp add: default_modes_eval)
  then have "for_each (default_body waveform extraction) default_modes (Map.empty, None)
      = Inl TypeError"
    by (rule for_each_raises [OF default_body_raises [of waveform extraction grp, OF assms(2)]])
  then show ?thesis
    by (simp add: load_sxs_waveform_def assms(1) then_py_Inr then_py_Inl)
qed

text \<open>
  The loop over explicit modes, when every requested dataset is present with its three
  columns: the result maps exactly the requested modes to their complex series, and the time
  grid is the first column of the dataset loaded last.
\<close>

lemma modes_body_present:
  assumes "waveform extraction = Some grp"
    and "grp (dataset_name (fst mode) (snd mode)) = Some tbl" and "3 \<le> length tbl"
  shows "modes_body waveform extraction mode st =
     Inr ((fst st)(mode \<mapsto> map2 Complex (tbl ! 1) (tbl ! 2)), Some tbl)"
  using assms
  by (simp add: modes_body_def getitem_def complex_series_def column_def then_py_Inr)

lemma for_each_modes_body:
  assumes "waveform extraction = Some grp"
    and "\<forall>mode\<in>set ms. \<exists>tbl. grp (dataset_name (fst mode) (snd mode)) = Some tbl \<and> 3 \<le> length tbl"
  shows "\<exists>out ma. for_each (modes_body waveform extraction) ms st = Inr (out, ma) \<and>
      (\<forall>mode. mode \<notin> set ms \<longrightarrow> out mode = fst st mode) \<and>
      (\<forall>mode\<in>set ms. \<exists>tbl. grp (dataset_name (fst mode) (snd mode)) = Some tbl \<and>
          out mode = Some (map2 Complex (tbl ! 1) (tbl ! 2))) \<and>
      (ms = [] \<longrightarrow> ma = snd st) \<and>
      (ms \<noteq> [] \<longrightarrow> ma = grp (dataset_name (fst (last ms)) (snd (last ms))))"
  using assms(2)
proof (induction ms arbitrary: st)
  case Nil
  then show ?case by (cases st) simp
next
  case (Cons x xs)
  from Cons.prems obtain tbl where
    tbl: "grp (dataset_name (fst x) (snd x)) = Some tbl" "3 \<le> length tbl" by auto
  define st1 where "st1 = ((fst st)(x \<mapsto> map2 Complex (tbl ! 1) (tbl ! 2)), Some tbl)"
  have step: "modes_body waveform extraction x st = Inr st1"
    unfolding st1_def
    by (rule modes_body_present [where waveform = waveform and extraction = extraction,
          OF assms(1) tbl])
  from Cons.prems have
    "\<forall>mode\<in>set xs. \<exists>tbl. grp (dataset_name (fst mode) (snd mode)) = Some tbl \<and> 3 \<le> length tbl"
    by simp
  from Cons.IH [OF this, of st1] obtain out ma where
    run: "for_each (modes_body waveform extraction) xs st1 = Inr (out, ma)"
    and keep: "\<forall>mode. mode \<notin> set xs \<longrightarrow> out mode = fst st1 mode"
    and vals: "\<forall>mode\<in>set xs. \<exists>tbl. grp (dataset_name (fst mode) (snd mode)) = Some tbl \<and>
          out mode = Some (map2 Complex (tbl ! 1) (tbl ! 2))"
    and e: "xs = [] \<longrightarrow> ma = snd st1"
    and ne: "xs \<noteq> [] \<longrightarrow> ma = grp (dataset_name (fst (last xs)) (snd (last xs)))"
    by blast
  have r: "for_each (modes_body waveform extraction) (x # xs) st = Inr (out, ma)"
    by (simp add: step then_py_Inr run)
  have k: "\<forall>mode. mode \<notin> set (x # xs) \<longrightarrow> out mode = fst st mode"
    using keep by (simp add: st1_def)
  have v: "\<forall>mode\<in>set (x # xs). \<exists>tbl. grp (dataset_name (fst mode) (snd mode)) = Some tbl \<and>
          out mode = Some (map2 Complex (tbl ! 1) (tbl ! 2))"
  proof
    fix mode assume m: "mode \<in> set (x # xs)"
    show "\<exists>tbl. grp (dataset_name (fst mode) (snd mode)) = Some tbl \<and>
          out mode = Some (map2 Complex (tbl ! 1) (tbl ! 2))"
    proof (cases "mode \<in> set xs")
      case True
      then show ?thesis using vals by blast
    next
      case False
      then have "mode = x" using m by simp
      moreover have "x \<notin> set xs" using False \<open>mode = x\<close> by simp
      then have "out x = fst st1 x" using keep by blast
      then have "out x = Some (map2 Complex (tbl ! 1) (tbl ! 2))" by (simp add: st1_def)
      ultimately show ?thesis using tbl(1) by blast
    qed
  qed
  have l: "ma = grp (dataset_name (fst (last (x # xs))) (snd (last (x # xs))))"
    using e ne tbl(1) by (cases "xs = []") (simp_all add: st1_def)
  show ?case using r k v l by blast
qed

lemma load_explicit_modes:
  assumes "deepdish_load file_name = Inr waveform" and "waveform extraction = Some grp"
    and "ms \<noteq> []"
    and "\<forall>mode\<in>set ms. \<exists>tbl. grp (dataset_name (fst mode) (snd mode)) = Some tbl \<and> 3 \<le> length tbl"
  shows "\<exists>out times tbl. load_sxs_waveform deepdish_load file_name (Some ms) extraction = Inr (out, times) \<and>
      dom out = set ms \<and>
      (\<forall>mode\<in>set ms. \<exists>tbl. grp (dataset_name (fst mode) (snd mode)) = Some tbl \<and>
          out mode = Some (map2 Complex (tbl ! 1) (tbl ! 2))) \<and>
      grp (dataset_name (fst (last ms)) (snd (last ms))) = Some tbl \<and> times = tbl ! 0"
proof -
  from for_each_modes_body [where waveform = waveform and extraction = extraction
      and st = "(Map.empty, None)", OF assms(2,4)] obtain out ma where
    run: "for_each (modes_body waveform extraction) ms (Map.empty, None) = Inr (out, ma)"
    and keep: "\<forall>mode. mode \<notin> set ms \<longrightarrow> out mode = None"
    and vals: "\<forall>mode\<in>set ms. \<exists>tbl. grp (dataset_name (fst mode) (snd mode)) = Some tbl \<and>
          out mode = Some (map2 Complex (tbl ! 1) (tbl ! 2))"
    and ma: "ma = grp (dataset_name (fst (last ms)) (snd (last ms)))"
    using assms(3) by auto
  have "last ms \<in> set ms" using assms(3) by simp
  with assms(4) obtain tbl where
    tbl: "grp (dataset_name (fst (last ms)) (snd (last ms))) = Some tbl" "3 \<le> length tbl"
    by blast
  have res: "load_sxs_waveform deepdish_load file_name (Some ms) extraction = Inr (out, tbl ! 0)"
  proof -
    have "0 < length tbl" using tbl(2) by linarith
    then have "column tbl 0 = Inr (tbl ! 0)" by (simp add: column_def)
    then show ?thesis
      by (simp add: load_sxs_waveform_def assms(1) then_py_Inr run ma tbl(1))
  qed
  have d: "dom out = set ms"
  proof (rule set_eqI)
    fix mode show "mode \<in> dom out \<longleftrightarrow> mode \<in> set ms"
    proof (cases "mode \<in> set ms")
      case True
      with vals obtain tbl where "out mode = Some (map2 Complex (tbl ! 1) (tbl ! 2))" by blast
      then have "mode \<in> dom out" by (rule domI)
      with True show ?thesis by simp
    next
      case False
      with keep have "out mode = None" by blast
      then have "mode \<notin> dom out" by (simp add: dom_def)
      with False show ?thesis by simp
    qed
  qed
  show ?thesis using res d vals tbl(1) by blast
qed

text \<open>
  Claim C1, at an archive that holds every dataset of the default modes. The first
  conjunct says that the sample archive holds them all under the default extraction label;
  the second is what the call with \<^verbatim>\<open>modes=None\<close> returns there: line 133 subscripts the
  formatted name, a string, with \<^verbatim>\<open>[:, 1:]\<close>, so the first pass of the loop raises
  \<^verbatim>\<open>TypeError\<close> and no mapping is returned. The third conjunct is the branch for explicit
  modes on the same archive, given the same modes: it returns the mapping of the claim.
\<close>

theorem load_default_modes_raises:
  "list_all (\<lambda>(ell, mm).
      case sample_archive ''OutermostExtraction.dir'' of
        None \<Rightarrow> False
      | Some grp \<Rightarrow> grp (dataset_name ell mm) = Some sample_table) default_modes \<and>
   load_sxs_waveform (\<lambda>f. Inr sample_archive) ''waveform.h5'' None ''OutermostExtraction.dir''
     = Inl TypeError \<and>
   (\<exists>out times.
      load_sxs_waveform (\<lambda>f. Inr sample_archive) ''waveform.h5'' (Some default_modes)
        ''OutermostExtraction.dir'' = Inr (out, times) \<and>
      dom out = set default_modes \<and> out (2, 2) = Some [Complex (1 / 2) (1 / 4), Complex (1 / 3) (1 / 5)] \<and>
      times = [0, 1])"
proof (intro conjI)
  define grp where
    "grp = map_of (map (\<lambda>(ell, mm). (dataset_name ell mm, sample_table)) default_modes)"
  have g: "sample_archive ''OutermostExtraction.dir'' = Some grp"
    by (simp add: sample_archive_def grp_def)
  show all: "list_all (\<lambda>(ell, mm).
      case sample_archive ''OutermostExtraction.dir'' of
        None \<Rightarrow> False
      | Some grp \<Rightarrow> grp (dataset_name ell mm) = Some sample_table) default_modes"
    by (simp add: sample_archive_def default_modes_eval dataset_name_def str_int_def
        digit_char_def)
  show "load_sxs_waveform (\<lambda>f. Inr sample_archive) ''waveform.h5'' None
      ''OutermostExtraction.dir'' = Inl TypeError"
    by (rule load_default_raises [where waveform = sample_archive, OF _ g]) simp
  have present: "\<forall>mode\<in>set default_modes.
      grp (dataset_name (fst mode) (snd mode)) = Some sample_table"
    using all unfolding g by (simp add: list_all_iff case_prod_beta)
  have three: "3 \<le> length sample_table" by (simp add: sample_table_def)
  have ne: "default_modes \<noteq> []" by (simp add: default_modes_eval)
  have "\<forall>mode\<in>set default_modes.
      \<exists>tbl. grp (dataset_name (fst mode) (snd mode)) = Some tbl \<and> 3 \<le> length tbl"
    using present three by blast
  from load_explicit_modes [where deepdish_load = "\<lambda>f. Inr sample_archive"
      and waveform = sample_archive and extraction = "''OutermostExtraction.dir''"
      and file_name = "''waveform.h5''", OF refl g ne this]
  obtain out times tbl where
    r: "load_sxs_waveform (\<lambda>f. Inr sample_archive) ''waveform.h5'' (Some default_modes)
        ''OutermostExtraction.dir'' = Inr (out, times)"
    and d: "dom out = set default_modes"
    and v: "\<forall>mode\<in>set default_modes. \<exists>tbl.
        grp (dataset_name (fst mode) (snd mode)) = Some tbl \<and>
        out mode = Some (map2 Complex (tbl ! 1) (tbl ! 2))"
    and t: "grp (dataset_name (fst (last default_modes)) (snd (last default_modes))) = Some tbl"
      "times = tbl ! 0"
    by blast
  have "last default_modes \<in> set default_modes" using ne by (rule last_in_set)
  with present t(1) have "tbl = sample_table" by simp
  with t(2) have times: "times = [0, 1]" by (simp add: sample_table_def)
  have "(2, 2) \<in> set default_modes" by (simp add: default_modes_eval)
  with v present have "out (2, 2) = Some (map2 Complex (sample_table ! 1) (sample_table ! 2))"
    by fastforce
  then have o: "out (2, 2) = Some [Complex (1 / 2) (1 / 4), Complex (1 / 3) (1 / 5)]"
    by (simp add: sample_table_def)
  show "\<exists>out times.
      load_sxs_waveform (\<lambda>f. Inr sample_archive) ''waveform.h5'' (Some default_modes)
        ''OutermostExtraction.dir'' = Inr (out, times) \<and>
      dom out = set default_modes \<and> out (2, 2) = Some [Complex (1 / 2) (1 / 4), Complex (1 / 3) (1 / 5)] \<and>
      times = [0, 1]"
    by (intro exI [of _ out] exI [of _ times] conjI) (fact r d o times)+
qed

text \<open>
  Claim C9. When the archive loads and \<^verbatim>\<open>modes\<close> is an explicitly empty collection, the
  loop body never runs, \<^verbatim>\<open>mode_array\<close> stays unbound, and line 140 raises the unbound-name
  error instead of returning an empty mapping.
\<close>

theorem load_empty_modes_unbound:
  assumes "deepdish_load file_name = Inr waveform"
  shows "for_each (modes_body waveform extraction) [] (Map.empty, None) = Inr (Map.empty, None) \<and>
         load_sxs_waveform deepdish_load file_name (Some []) extraction = Inl UnboundLocalError"
  by (simp add: load_sxs_waveform_def assms then_py_Inr)

theorem load_empty_modes_unbound_witness:
  "load_sxs_waveform (\<lambda>f. Inr sample_archive) ''waveform.h5'' (Some [])
     ''OutermostExtraction.dir'' = Inl UnboundLocalError"
  using load_empty_modes_unbound [of "\<lambda>f. Inr sample_archive" "''waveform.h5''" sample_archive]
  by simp

section \<open>Properties of the version stamp reader\<close>

text \<open>
  Claim C8. The reader opens the file \<^verbatim>\<open>.version\<close> in the directory of the module and
  returns its first line without trailing whitespace; when opening or reading raises an
  \<^verbatim>\<open>EnvironmentError\<close>, the function prints the diagnostic message and returns \<^verbatim>\<open>None\<close>:
  the outcome is a return value, not an exception.
\<close>

theorem version_io_failure_caught:
  "(open_file (os_path_join (os_path_dirname module_file) ''.version'') = Inl EnvironmentError \<longrightarrow>
      get_version_information module_file open_file = ([no_version_message], Inr None)) \<and>
   (open_file (os_path_join (os_path_dirname module_file) ''.version'') = Inr (l # rest) \<longrightarrow>
      get_version_information module_file open_file = ([], Inr (Some (rstrip l)))) \<and>
   (open_file (os_path_join (os_path_dirname module_file) ''.version'') = Inr [] \<longrightarrow>
      get_version_information module_file open_file = ([], Inr (Some [])))"
  by (simp add: get_version_information_def readline_def rstrip_def)

theorem version_io_failure_caught_witness:
  "get_version_information ''/opt/gwmemory/utils.py'' (\<lambda>p. Inl EnvironmentError)
     = ([no_version_message], Inr None) \<and>
   get_version_information ''/opt/gwmemory/utils.py''
       (\<lambda>p. if p = ''/opt/gwmemory/.version''
            then Inr [unicode_of ''0.1.2'' @ [32, 160, 133, 10], unicode_of ''rest'']
            else Inl EnvironmentError)
     = ([], Inr (Some (unicode_of ''0.1.2'')))"
proof -
  have path: "os_path_join (os_path_dirname ''/opt/gwmemory/utils.py'') ''.version''
      = ''/opt/gwmemory/.version''"
    by (simp add: os_path_join_def os_path_dirname_def)
  have strip: "rstrip (unicode_of ''0.1.2'' @ [32, 160, 133, 10]) = unicode_of ''0.1.2''"
    by (simp add: rstrip_def is_space_def unicode_of_def)
  have a: "get_version_information ''/opt/gwmemory/utils.py'' (\<lambda>p. Inl EnvironmentError)
     = ([no_version_message], Inr None)"
    using version_io_failure_caught [of "\<lambda>p. Inl EnvironmentError" "''/opt/gwmemory/utils.py''"]
    by simp
  have b: "get_version_information ''/opt/gwmemory/utils.py''
       (\<lambda>p. if p = ''/opt/gwmemory/.version''
            then Inr [unicode_of ''0.1.2'' @ [32, 160, 133, 10], unicode_of ''rest'']
            else Inl EnvironmentError)
     = ([], Inr (Some (unicode_of ''0.1.2'')))"
    using version_io_failure_caught [of
        "\<lambda>p. if p = ''/opt/gwmemory/.version''
            then Inr [unicode_of ''0.1.2'' @ [32, 160, 133, 10], unicode_of ''rest'']
             else Inl EnvironmentError"
        "''/opt/gwmemory/utils.py''" "unicode_of ''0.1.2'' @ [32, 160, 133, 10]"
        "[unicode_of ''rest'']"]
    by (simp only: path strip if_True simp_thms)
  from a b show ?thesis by (rule conjI)
qed

end
